theory Spec2Isabelle
  imports Main "HOL-Library.AList" "HOL-Library.Char_ord" "HOL-Library.Word"
begin

section \<open>devbox-ctl: the container registry and the commands that change it\<close>

text \<open>
  A shallow embedding of \<^verbatim>\<open>scripts/devbox-ctl/devbox_ctl.py\<close>. One invocation of the tool
  is single-threaded; it talks to three things outside itself: the registry file
  \<^verbatim>\<open>containers.json\<close>, the programs it starts with \<^verbatim>\<open>subprocess.run\<close> (podman, op,
  groups) and the clock. The registry file is part of the state. The programs and the clock
  are an oracle over an abstract world \<open>'w\<close>: every theorem holds for every oracle.
  The commands are modelled as one invocation running alone; \<^verbatim>\<open>add_container\<close> is
  modelled a second time as one of several processes that share the file and its lock.

  What the model leaves out: text printed with \<^verbatim>\<open>click.echo\<close>, the detail and suggestion
  texts of an exception (its class and message are kept), and operating-system errors on the
  registry file (permissions, a full disk). A character is one of the 256 of Latin-1, the
  first 256 of Unicode; text with other characters is outside the model.
\<close>

subsection \<open>Values read from and written to the registry file\<close>

text \<open>What \<^verbatim>\<open>json.load\<close> returns: None, bool, int, float, str, list, dict (a dict keeps
  the order of its keys, hence an association list). A float is known by its 64 bits; the
  tool never computes with one, and compares the values it reads with strings only.\<close>

datatype json =
    JNull
  | JBool bool
  | JInt int
  | JFloat "64 word"
  | JStr string
  | JList "json list"
  | JDict "(string \<times> json) list"

text \<open>The exceptions. The first five are the subclasses of \<^verbatim>\<open>DevboxError\<close>, each with its
  message; the others are Python's own.\<close>

datatype error =
    ValidationError string
  | NotFoundError string
  | DevboxPermissionError string
  | SecretError string
  | PodmanError string
  | JSONDecodeError
  | UnicodeDecodeError
  | RecursionError
  | ValueError
  | KeyError string
  | TypeError
  | AttributeError
  | FileNotFoundError
  | CalledProcessError "string list"

fun is_DevboxError :: "error \<Rightarrow> bool" where
  "is_DevboxError (ValidationError m) = True"
| "is_DevboxError (NotFoundError m) = True"
| "is_DevboxError (DevboxPermissionError m) = True"
| "is_DevboxError (SecretError m) = True"
| "is_DevboxError (PodmanError m) = True"
| "is_DevboxError e = False"

subsection \<open>Python's operations on these values\<close>

text \<open>\<^verbatim>\<open>v[k]\<close> with a string key: a dict looks the key up (KeyError when missing); a list
  or a str refuses a string index, and None, bool and int are not subscriptable.\<close>

fun getitem :: "json \<Rightarrow> string \<Rightarrow> error + json" where
  "getitem (JDict d) k = (case map_of d k of None \<Rightarrow> Inl (KeyError k) | Some v \<Rightarrow> Inr v)"
| "getitem v k = Inl TypeError"

text \<open>\<^verbatim>\<open>for x in v\<close>: a list gives its elements, a dict its keys, a str its characters.\<close>

fun iterate :: "json \<Rightarrow> error + json list" where
  "iterate (JList xs) = Inr xs"
| "iterate (JDict d) = Inr (map (\<lambda>kv. JStr (fst kv)) d)"
| "iterate (JStr s) = Inr (map (\<lambda>c. JStr [c]) s)"
| "iterate v = Inl TypeError"

text \<open>\<^verbatim>\<open>len(v)\<close>.\<close>

fun len :: "json \<Rightarrow> error + int" where
  "len (JList xs) = Inr (int (length xs))"
| "len (JDict d) = Inr (int (length d))"
| "len (JStr s) = Inr (int (length s))"
| "len v = Inl TypeError"

text \<open>\<^verbatim>\<open>v.append(x)\<close>: only a list has the method.\<close>

fun py_append :: "json \<Rightarrow> json \<Rightarrow> error + json" where
  "py_append (JList xs) x = Inr (JList (xs @ [x]))"
| "py_append v x = Inl AttributeError"

text \<open>\<^verbatim>\<open>d.update(updates)\<close>: each key in turn; an existing key keeps its place, a new
  key goes to the end.\<close>

definition dict_update :: "(string \<times> json) list \<Rightarrow> (string \<times> json) list \<Rightarrow> (string \<times> json) list" where
  "dict_update d updates = foldl (\<lambda>acc kv. AList.update (fst kv) (snd kv) acc) d updates"

text \<open>\<^verbatim>\<open>registry["containers"] = v\<close> on the loaded registry.\<close>

fun setitem :: "json \<Rightarrow> string \<Rightarrow> json \<Rightarrow> error + json" where
  "setitem (JDict d) k v = Inr (JDict (AList.update k v d))"
| "setitem r k v = Inl TypeError"

text \<open>Whitespace as \<^verbatim>\<open>str.strip\<close> and \<^verbatim>\<open>str.split\<close> see it.\<close>

definition is_space :: "char \<Rightarrow> bool" where
  "is_space c = (c \<in> set [CHR 0x09, CHR 0x0A, CHR 0x0B, CHR 0x0C, CHR 0x0D,
                          CHR 0x1C, CHR 0x1D, CHR 0x1E, CHR 0x1F, CHR 0x20,
                          CHR 0x85, CHR 0xA0])"

definition strip :: "string \<Rightarrow> string" where
  "strip s = rev (dropWhile is_space (rev (dropWhile is_space s)))"

fun split_ws :: "string \<Rightarrow> string \<Rightarrow> string list" where
  "split_ws cur [] = (if cur = [] then [] else [cur])"
| "split_ws cur (c # cs) =
     (if is_space c then (if cur = [] then split_ws [] cs else cur # split_ws [] cs)
      else split_ws (cur @ [c]) cs)"

definition split :: "string \<Rightarrow> string list" where
  "split s = split_ws [] s"

definition startswith :: "string \<Rightarrow> string \<Rightarrow> bool" where
  "startswith s p = (take (length p) s = p)"

text \<open>\<^verbatim>\<open>sub in s\<close> on strings.\<close>

fun contains :: "string \<Rightarrow> string \<Rightarrow> bool" where
  "contains [] sub = (sub = [])"
| "contains (c # cs) sub = (startswith (c # cs) sub \<or> contains cs sub)"

subsection \<open>Regular expressions, as far as the two patterns of the tool need them\<close>

text \<open>
  A pattern is a sequence of items: one character of a class, a bounded repetition
  \<^verbatim>\<open>{lo,hi}\<close> of a class, \<^verbatim>\<open>+\<close> of a class, and \<^verbatim>\<open>$\<close>. A class is a list of ranges.
  \<^verbatim>\<open>re.match\<close> anchors at the start of the string (so a leading \<^verbatim>\<open>^\<close> adds nothing) and
  does not need to reach its end. Without the MULTILINE flag, Python's \<^verbatim>\<open>$\<close> matches at
  the end of the string and also just before a newline that is the last character.
\<close>

datatype rx =
    One "(char \<times> char) list"
  | Rep "(char \<times> char) list" nat nat
  | Plus "(char \<times> char) list"
  | Eos

definition in_class :: "(char \<times> char) list \<Rightarrow> char \<Rightarrow> bool" where
  "in_class rs c = list_ex (\<lambda>r. fst r \<le> c \<and> c \<le> snd r) rs"

fun rx_match :: "rx list \<Rightarrow> string \<Rightarrow> bool" where
  "rx_match [] s = True"
| "rx_match (One cl # r) s =
     (case s of [] \<Rightarrow> False | c # cs \<Rightarrow> in_class cl c \<and> rx_match r cs)"
| "rx_match (Rep cl lo hi # r) s =
     (if 0 < lo then
        (case s of [] \<Rightarrow> False
         | c # cs \<Rightarrow> in_class cl c \<and> rx_match (Rep cl (lo - 1) (hi - 1) # r) cs)
      else ((0 < hi \<and> (case s of [] \<Rightarrow> False
                        | c # cs \<Rightarrow> in_class cl c \<and> rx_match (Rep cl 0 (hi - 1) # r) cs))
            \<or> rx_match r s))"
| "rx_match (Plus cl # r) s =
     (case s of [] \<Rightarrow> False
      | c # cs \<Rightarrow> in_class cl c \<and> (rx_match (Plus cl # r) cs \<or> rx_match r cs))"
| "rx_match (Eos # r) s = ((s = [] \<or> s = [CHR 0x0A]) \<and> rx_match r s)"

subsection \<open>Validation\<close>

text \<open>\<^verbatim>\<open>NAME_PATTERN = re.compile(r"^[a-z][a-z0-9-]{1,61}[a-z0-9]$")\<close>\<close>

definition NAME_PATTERN :: "rx list" where
  "NAME_PATTERN =
     [One [(CHR ''a'', CHR ''z'')],
      Rep [(CHR ''a'', CHR ''z''), (CHR ''0'', CHR ''9''), (CHR ''-'', CHR ''-'')] 1 61,
      One [(CHR ''a'', CHR ''z''), (CHR ''0'', CHR ''9'')],
      Eos]"

definition validate_container_name :: "string \<Rightarrow> error + unit" where
  "validate_container_name name =
     (if length name < 3 then Inl (ValidationError (''Container name too short: '' @ name))
      else if length name > 63 then Inl (ValidationError (''Container name too long: '' @ name))
      else if \<not> rx_match NAME_PATTERN name
        then Inl (ValidationError (''Invalid container name: '' @ name))
      else if contains name ''--''
        then Inl (ValidationError (''Invalid container name: '' @ name))
      else Inr ())"

text \<open>\<^verbatim>\<open>re.match(r"^\d+[MG]$", memory)\<close>. On a str, \<^verbatim>\<open>\d\<close> is any decimal digit of Unicode;
  among the characters of the model these are \<^verbatim>\<open>0\<close> to \<^verbatim>\<open>9\<close>.\<close>

definition MEMORY_PATTERN :: "rx list" where
  "MEMORY_PATTERN =
     [Plus [(CHR ''0'', CHR ''9'')],
      One [(CHR ''M'', CHR ''M''), (CHR ''G'', CHR ''G'')],
      Eos]"

definition validate_memory :: "string \<Rightarrow> error + unit" where
  "validate_memory memory =
     (if \<not> rx_match MEMORY_PATTERN memory
        then Inl (ValidationError (''Invalid memory format: '' @ memory))
      else Inr ())"

text \<open>\<^verbatim>\<open>str(cpu)\<close>, as the f-string of \<^verbatim>\<open>validate_cpu\<close> and the arguments of podman use it.\<close>

function str_nat :: "nat \<Rightarrow> string" where
  "str_nat n =
     (if n < 10 then [char_of (48 + n)]
      else str_nat (n div 10) @ [char_of (48 + n mod 10)])"
  by pat_completeness auto
termination
  by (relation "measure id") auto

definition str_int :: "int \<Rightarrow> string" where
  "str_int i = (if i < 0 then CHR ''-'' # str_nat (nat (- i)) else str_nat (nat i))"

definition validate_cpu :: "int \<Rightarrow> error + unit" where
  "validate_cpu cpu =
     (if cpu < 1 \<or> cpu > 64 then Inl (ValidationError (''Invalid CPU limit: '' @ str_int cpu))
      else Inr ())"

subsection \<open>The outside world\<close>

text \<open>What \<^verbatim>\<open>subprocess.run\<close> can do: fail to find the program (FileNotFoundError), or
  run it to an exit status with its standard output and error.\<close>

datatype proc = NoSuchProgram | Exited int string string

text \<open>
  The environment of one invocation: the oracle for started programs, for the clock
  (\<^verbatim>\<open>get_timestamp\<close>) and for the answer to \<^verbatim>\<open>click.confirm\<close>, each free to change the
  world; the user name (\<^verbatim>\<open>get_current_user\<close>); and the module constants read from the
  process environment at start.
\<close>

record 'w env =
  run_proc :: "string list \<Rightarrow> 'w \<Rightarrow> proc \<times> 'w"
  utc_now :: "'w \<Rightarrow> string \<times> 'w"
  confirm :: "'w \<Rightarrow> bool \<times> 'w"
  USER :: string
  OP_SERVICE_ACCOUNT_TOKEN :: string
  OP_VAULT :: string
  MAX_PER_USER :: int
  MAX_GLOBAL :: int
  CONTAINER_IMAGE :: string

text \<open>
  The content of \<^verbatim>\<open>REGISTRY_FILE\<close>: no file; the text of a JSON value, known by the value
  \<^verbatim>\<open>json.load\<close> returns for it; or content on which \<^verbatim>\<open>json.load\<close> fails. It fails in
  four ways: the bytes are not text in the encoding of the open file (UnicodeDecodeError),
  the text is not JSON (JSONDecodeError; the empty file is such a text), the nesting is
  deeper than the interpreter's recursion limit (RecursionError), or an integer has more
  digits than \<^verbatim>\<open>int\<close> converts (ValueError).
\<close>

datatype defect = NotText | NotJSON | TooDeep | HugeInteger

datatype stored = Absent | Damaged defect | Holds json

fun load_error :: "defect \<Rightarrow> error" where
  "load_error NotText = UnicodeDecodeError"
| "load_error NotJSON = JSONDecodeError"
| "load_error TooDeep = RecursionError"
| "load_error HugeInteger = ValueError"

text \<open>The state: the world, the registry file and the log of the commands started.\<close>

record 'w state =
  world :: 'w
  registry_file :: stored
  calls :: "string list list"

type_synonym ('a, 'w) cmd = "'w state \<Rightarrow> (error + 'a) \<times> 'w state"

definition ret :: "'a \<Rightarrow> ('a, 'w) cmd" where
  "ret a s = (Inr a, s)"

definition throw :: "error \<Rightarrow> ('a, 'w) cmd" where
  "throw e s = (Inl e, s)"

definition lift :: "error + 'a \<Rightarrow> ('a, 'w) cmd" where
  "lift r s = (r, s)"

text \<open>Sequencing: an exception of the first part skips the second.\<close>

definition bnd :: "('a, 'w) cmd \<Rightarrow> ('a \<Rightarrow> ('b, 'w) cmd) \<Rightarrow> ('b, 'w) cmd" where
  "bnd m f s = (case m s of (Inl e, s') \<Rightarrow> (Inl e, s') | (Inr a, s') \<Rightarrow> f a s')"

text \<open>\<^verbatim>\<open>try: m except Exception as e: h(e)\<close>\<close>

definition try_except :: "('a, 'w) cmd \<Rightarrow> (error \<Rightarrow> ('a, 'w) cmd) \<Rightarrow> ('a, 'w) cmd" where
  "try_except m h s = (case m s of (Inl e, s') \<Rightarrow> h e s' | (Inr a, s') \<Rightarrow> (Inr a, s'))"

definition get_timestamp :: "'w env \<Rightarrow> (string, 'w) cmd" where
  "get_timestamp E s = (case utc_now E (world s) of (t, w') \<Rightarrow> (Inr t, s\<lparr>world := w'\<rparr>))"

text \<open>\<^verbatim>\<open>run_command(cmd, check=...)\<close>: with \<^verbatim>\<open>check\<close>, a non-zero exit status raises
  CalledProcessError. The result is (returncode, stdout, stderr).\<close>

definition run_command :: "'w env \<Rightarrow> string list \<Rightarrow> bool \<Rightarrow> (int \<times> string \<times> string, 'w) cmd" where
  "run_command E cmd check s =
     (case run_proc E cmd (world s) of
        (p, w') \<Rightarrow>
          (let s' = s\<lparr>world := w', calls := calls s @ [cmd]\<rparr> in
           case p of
             NoSuchProgram \<Rightarrow> (Inl FileNotFoundError, s')
           | Exited rc out err \<Rightarrow>
               if check \<and> rc \<noteq> 0 then (Inl (CalledProcessError cmd), s')
               else (Inr (rc, out, err), s')))"

text \<open>\<^verbatim>\<open>is_admin\<close>: any exception of the lookup means "not an administrator".\<close>

definition is_admin :: "'w env \<Rightarrow> string \<Rightarrow> (bool, 'w) cmd" where
  "is_admin E user =
     try_except
       (bnd (run_command E [''groups'', user] False) (\<lambda>result.
          let groups = split (strip (fst (snd result))) in
          ret (''wheel'' \<in> set groups \<or> ''sudo'' \<in> set groups)))
       (\<lambda>e. ret False)"

subsection \<open>Registry management\<close>

text \<open>\<^verbatim>\<open>init_registry\<close>: the exclusive create writes the empty registry when there is no
  file, and leaves an existing file alone.\<close>

definition empty_registry :: json where
  "empty_registry = JDict [(''version'', JInt 1), (''containers'', JList [])]"

definition init_registry :: "(unit, 'w) cmd" where
  "init_registry s =
     (case registry_file s of
        Absent \<Rightarrow> (Inr (), s\<lparr>registry_file := Holds empty_registry\<rparr>)
      | _ \<Rightarrow> (Inr (), s))"

text \<open>\<^verbatim>\<open>open(REGISTRY_FILE, ...)\<close> of an existing file and \<^verbatim>\<open>json.load(f)\<close>; the open
  fails when there is no file.\<close>

definition json_load :: "(json, 'w) cmd" where
  "json_load s =
     (case registry_file s of
        Holds j \<Rightarrow> (Inr j, s)
      | Damaged d \<Rightarrow> (Inl (load_error d), s)
      | Absent \<Rightarrow> (Inl FileNotFoundError, s))"

text \<open>\<^verbatim>\<open>f.seek(0); f.truncate(); json.dump(registry, f, indent=2)\<close>\<close>

definition json_dump :: "json \<Rightarrow> (unit, 'w) cmd" where
  "json_dump j s = (Inr (), s\<lparr>registry_file := Holds j\<rparr>)"

definition load_registry :: "(json, 'w) cmd" where
  "load_registry = bnd init_registry (\<lambda>_. json_load)"

text \<open>The loop of \<^verbatim>\<open>get_container\<close>: the first element whose name is the one asked for.\<close>

fun find_container :: "json list \<Rightarrow> string \<Rightarrow> error + json option" where
  "find_container [] name = Inr None"
| "find_container (container # rest) name =
     (case getitem container ''name'' of
        Inl e \<Rightarrow> Inl e
      | Inr v \<Rightarrow> if v = JStr name then Inr (Some container) else find_container rest name)"

definition get_container :: "string \<Rightarrow> (json option, 'w) cmd" where
  "get_container name =
     bnd load_registry (\<lambda>registry.
     bnd (lift (getitem registry ''containers'')) (\<lambda>containers.
     bnd (lift (iterate containers)) (\<lambda>xs.
     lift (find_container xs name))))"

definition container_exists :: "string \<Rightarrow> (bool, 'w) cmd" where
  "container_exists name = bnd (get_container name) (\<lambda>c. ret (c \<noteq> None))"

text \<open>The record \<^verbatim>\<open>add_container\<close> appends.\<close>

definition new_record :: "string \<Rightarrow> string \<Rightarrow> int \<Rightarrow> string \<Rightarrow> bool \<Rightarrow> string \<Rightarrow> json" where
  "new_record name owner cpu memory with_syncthing timestamp =
     JDict [(''name'', JStr name),
            (''owner'', JStr owner),
            (''state'', JStr ''creating''),
            (''createdAt'', JStr timestamp),
            (''lastActivityAt'', JStr timestamp),
            (''cpuLimit'', JInt cpu),
            (''memoryLimit'', JStr memory),
            (''volumeName'', JStr (name @ ''-data'')),
            (''tailscaleHostname'', JStr name),
            (''tailscaleIP'', JNull),
            (''withSyncthing'', JBool with_syncthing)]"

text \<open>\<^verbatim>\<open>registry["containers"].append(...)\<close> changes the list inside the loaded dict, which
  is then written back whole.\<close>

definition add_container :: "'w env \<Rightarrow> string \<Rightarrow> string \<Rightarrow> int \<Rightarrow> string \<Rightarrow> bool \<Rightarrow> (unit, 'w) cmd" where
  "add_container E name owner cpu memory with_syncthing =
     bnd init_registry (\<lambda>_.
     bnd json_load (\<lambda>registry.
     bnd (get_timestamp E) (\<lambda>timestamp.
     bnd (lift (getitem registry ''containers'')) (\<lambda>containers.
     bnd (lift (py_append containers
                  (new_record name owner cpu memory with_syncthing timestamp))) (\<lambda>containers'.
     bnd (lift (setitem registry ''containers'' containers')) (\<lambda>registry'.
     json_dump registry'))))))"

text \<open>The loop of \<^verbatim>\<open>update_container\<close>: the first element with the name is updated, then
  \<^verbatim>\<open>break\<close>.\<close>

fun update_first :: "json list \<Rightarrow> string \<Rightarrow> (string \<times> json) list \<Rightarrow> error + json list" where
  "update_first [] name updates = Inr []"
| "update_first (container # rest) name updates =
     (case getitem container ''name'' of
        Inl e \<Rightarrow> Inl e
      | Inr v \<Rightarrow>
          if v = JStr name then
            (case container of
               JDict d \<Rightarrow> Inr (JDict (dict_update d updates) # rest)
             | _ \<Rightarrow> Inl AttributeError)
          else (case update_first rest name updates of
                  Inl e \<Rightarrow> Inl e
                | Inr rest' \<Rightarrow> Inr (container # rest')))"

text \<open>The elements are changed in place: a list keeps the changed elements; the keys of a
  dict and the characters of a str are not part of it, and nothing is put back.\<close>

fun put_back :: "json \<Rightarrow> json list \<Rightarrow> json" where
  "put_back (JList xs) xs' = JList xs'"
| "put_back v xs' = v"

text \<open>\<^verbatim>\<open>update_container(name, **updates)\<close>: a keyword \<^verbatim>\<open>name\<close> among the updates is a
  TypeError of the call itself (two values for the parameter \<^verbatim>\<open>name\<close>).\<close>

definition update_container :: "string \<Rightarrow> (string \<times> json) list \<Rightarrow> (unit, 'w) cmd" where
  "update_container name updates =
     (if ''name'' \<in> set (map fst updates) then throw TypeError
      else
        bnd init_registry (\<lambda>_.
        bnd json_load (\<lambda>registry.
        bnd (lift (getitem registry ''containers'')) (\<lambda>containers.
        bnd (lift (iterate containers)) (\<lambda>xs.
        bnd (lift (update_first xs name updates)) (\<lambda>xs'.
        bnd (lift (setitem registry ''containers'' (put_back containers xs'))) (\<lambda>registry'.
        json_dump registry')))))))"

text \<open>The comprehension of \<^verbatim>\<open>remove_container\<close>.\<close>

fun remove_named :: "json list \<Rightarrow> string \<Rightarrow> error + json list" where
  "remove_named [] name = Inr []"
| "remove_named (c # rest) name =
     (case getitem c ''name'' of
        Inl e \<Rightarrow> Inl e
      | Inr v \<Rightarrow>
          (case remove_named rest name of
             Inl e \<Rightarrow> Inl e
           | Inr rest' \<Rightarrow> Inr (if v \<noteq> JStr name then c # rest' else rest')))"

definition remove_container :: "string \<Rightarrow> (unit, 'w) cmd" where
  "remove_container name =
     bnd init_registry (\<lambda>_.
     bnd json_load (\<lambda>registry.
     bnd (lift (getitem registry ''containers'')) (\<lambda>containers.
     bnd (lift (iterate containers)) (\<lambda>xs.
     bnd (lift (remove_named xs name)) (\<lambda>xs'.
     bnd (lift (setitem registry ''containers'' (JList xs'))) (\<lambda>registry'.
     json_dump registry'))))))"

text \<open>The generator of \<^verbatim>\<open>count_user_containers\<close>.\<close>

fun count_owned :: "json list \<Rightarrow> string \<Rightarrow> error + int" where
  "count_owned [] user = Inr 0"
| "count_owned (c # rest) user =
     (case getitem c ''owner'' of
        Inl e \<Rightarrow> Inl e
      | Inr v \<Rightarrow>
          (case count_owned rest user of
             Inl e \<Rightarrow> Inl e
           | Inr n \<Rightarrow> Inr (if v = JStr user then 1 + n else n)))"

definition count_user_containers :: "string \<Rightarrow> (int, 'w) cmd" where
  "count_user_containers user =
     bnd load_registry (\<lambda>registry.
     bnd (lift (getitem registry ''containers'')) (\<lambda>containers.
     bnd (lift (iterate containers)) (\<lambda>xs.
     lift (count_owned xs user))))"

definition count_all_containers :: "(int, 'w) cmd" where
  "count_all_containers =
     bnd load_registry (\<lambda>registry.
     bnd (lift (getitem registry ''containers'')) (\<lambda>containers.
     lift (len containers)))"

subsection \<open>1Password\<close>

definition check_op_cli :: "'w env \<Rightarrow> (unit, 'w) cmd" where
  "check_op_cli E =
     try_except
       (bnd (run_command E [''op'', ''--version''] True) (\<lambda>_. ret ()))
       (\<lambda>e. case e of
               FileNotFoundError \<Rightarrow> throw (SecretError ''1Password CLI not found'')
             | _ \<Rightarrow> throw e)"

definition check_op_auth :: "'w env \<Rightarrow> (unit, 'w) cmd" where
  "check_op_auth E =
     (if OP_SERVICE_ACCOUNT_TOKEN E = []
        then throw (SecretError ''1Password Service Account not configured'')
      else
        try_except
          (bnd (run_command E [''op'', ''vault'', ''list'', ''--format=json''] True) (\<lambda>_. ret ()))
          (\<lambda>e. case e of
                  CalledProcessError c \<Rightarrow> throw (SecretError ''1Password authentication failed'')
                | _ \<Rightarrow> throw e))"

definition get_tailscale_authkey :: "'w env \<Rightarrow> string \<Rightarrow> (string, 'w) cmd" where
  "get_tailscale_authkey E username =
     bnd (check_op_cli E) (\<lambda>_.
     bnd (check_op_auth E) (\<lambda>_.
     let item_name = username @ ''-tailscale-authkey'';
         reference = ''op://'' @ OP_VAULT E @ ''/'' @ item_name @ ''/password'' in
     bnd (try_except
            (bnd (run_command E [''op'', ''read'', reference, ''--no-newline''] True)
               (\<lambda>result. ret (fst (snd result))))
            (\<lambda>e. case e of
                    CalledProcessError c \<Rightarrow>
                      throw (SecretError ''Failed to retrieve Tailscale auth key'')
                  | _ \<Rightarrow> throw e)) (\<lambda>authkey.
     if authkey = [] then throw (SecretError ''Tailscale auth key is empty'')
     else if \<not> startswith authkey ''tskey-''
       then throw (SecretError ''Invalid Tailscale auth key format'')
     else ret authkey)))"

definition get_tailscale_tags :: "string \<Rightarrow> string" where
  "get_tailscale_tags username = ''tag:devcontainer,tag:'' @ username @ ''-container''"

subsection \<open>Podman\<close>

definition check_podman :: "'w env \<Rightarrow> (unit, 'w) cmd" where
  "check_podman E =
     try_except
       (bnd (run_command E [''podman'', ''--version''] True) (\<lambda>_. ret ()))
       (\<lambda>e. case e of
               FileNotFoundError \<Rightarrow> throw (PodmanError ''Podman not found'')
             | _ \<Rightarrow> throw e)"

definition podman_volume_exists :: "'w env \<Rightarrow> string \<Rightarrow> (bool, 'w) cmd" where
  "podman_volume_exists E name =
     bnd (run_command E [''podman'', ''volume'', ''exists'', name] False)
       (\<lambda>result. ret (fst result = 0))"

definition podman_create_volume :: "'w env \<Rightarrow> string \<Rightarrow> (unit, 'w) cmd" where
  "podman_create_volume E name =
     bnd (run_command E [''podman'', ''volume'', ''create'', name] True) (\<lambda>_. ret ())"

definition podman_remove_volume :: "'w env \<Rightarrow> string \<Rightarrow> (unit, 'w) cmd" where
  "podman_remove_volume E name =
     bnd (run_command E [''podman'', ''volume'', ''rm'', name] False) (\<lambda>_. ret ())"

definition podman_container_exists :: "'w env \<Rightarrow> string \<Rightarrow> (bool, 'w) cmd" where
  "podman_container_exists E name =
     bnd (run_command E [''podman'', ''container'', ''exists'', name] False)
       (\<lambda>result. ret (fst result = 0))"

definition podman_container_state :: "'w env \<Rightarrow> string \<Rightarrow> (string option, 'w) cmd" where
  "podman_container_state E name =
     bnd (podman_container_exists E name) (\<lambda>ex.
     if \<not> ex then ret None
     else
       bnd (run_command E [''podman'', ''inspect'', ''--format'', ''{{.State.Status}}'', name] False)
         (\<lambda>result. ret (if fst result = 0 then Some (strip (fst (snd result))) else None)))"

definition podman_stop_container :: "'w env \<Rightarrow> string \<Rightarrow> (unit, 'w) cmd" where
  "podman_stop_container E name =
     try_except
       (bnd (run_command E [''podman'', ''stop'', name] True) (\<lambda>_. ret ()))
       (\<lambda>e. case e of
               CalledProcessError c \<Rightarrow> throw (PodmanError (''Failed to stop container: '' @ name))
             | _ \<Rightarrow> throw e)"

definition podman_remove_container :: "'w env \<Rightarrow> string \<Rightarrow> bool \<Rightarrow> (unit, 'w) cmd" where
  "podman_remove_container E name force =
     try_except
       (bnd (run_command E ([''podman'', ''rm''] @ (if force then [''-f''] else []) @ [name]) True)
          (\<lambda>_. ret ()))
       (\<lambda>e. case e of
               CalledProcessError c \<Rightarrow> throw (PodmanError (''Failed to remove container: '' @ name))
             | _ \<Rightarrow> throw e)"

definition podman_run_container ::
  "'w env \<Rightarrow> string \<Rightarrow> string \<Rightarrow> int \<Rightarrow> string \<Rightarrow> string \<Rightarrow> string \<Rightarrow> bool \<Rightarrow> (unit, 'w) cmd" where
  "podman_run_container E name volume cpu memory authkey tags with_syncthing =
     try_except
       (bnd (run_command E
               [''podman'', ''run'', ''-d'', ''--name'', name, ''--hostname'', name,
                ''--cpus'', str_int cpu, ''--memory'', memory,
                ''-v'', volume @ '':/home/dev:Z'',
                ''-e'', ''TS_AUTHKEY='' @ authkey,
                ''-e'', ''TS_TAGS='' @ tags,
                ''-e'', ''CONTAINER_NAME='' @ name,
                ''-e'', ''SYNCTHING_ENABLED='' @ (if with_syncthing then ''true'' else ''false''),
                ''--cap-add=NET_ADMIN'', ''--restart=unless-stopped'',
                CONTAINER_IMAGE E] True)
          (\<lambda>_. ret ()))
       (\<lambda>e. case e of
               CalledProcessError c \<Rightarrow> throw (PodmanError (''Failed to create container: '' @ name))
             | _ \<Rightarrow> throw e)"

text \<open>\<^verbatim>\<open>wait_for_tailscale\<close>: at most \<open>timeout\<close> polls; an exception of a poll is passed
  over; the sleep between polls is not modelled.\<close>

fun wait_for_tailscale :: "'w env \<Rightarrow> string \<Rightarrow> nat \<Rightarrow> (string option, 'w) cmd" where
  "wait_for_tailscale E name 0 = ret None"
| "wait_for_tailscale E name (Suc timeout) =
     bnd (try_except
            (bnd (run_command E [''podman'', ''exec'', name, ''tailscale'', ''ip'', ''-4''] False)
               (\<lambda>result. ret (if fst result = 0 \<and> strip (fst (snd result)) \<noteq> []
                                then Some (strip (fst (snd result))) else None)))
            (\<lambda>e. ret None))
       (\<lambda>found. case found of
                   Some ip \<Rightarrow> ret (Some ip)
                 | None \<Rightarrow> wait_for_tailscale E name timeout)"

subsection \<open>The commands\<close>

text \<open>
  Each command is the body of its \<^verbatim>\<open>try\<close>. The result \<open>Inl e\<close> is the exception that leaves
  the body: a \<^verbatim>\<open>DevboxError\<close> is printed by the command's own handler, any other exception
  by \<^verbatim>\<open>main\<close>; both end the process with status 1.
\<close>

text \<open>\<^verbatim>\<open>create\<close>, up to the retrieval of the auth key: nothing here writes a record.\<close>

definition create_checks ::
  "'w env \<Rightarrow> string \<Rightarrow> int \<Rightarrow> string \<Rightarrow> (string \<times> string, 'w) cmd" where
  "create_checks E name cpu memory =
     bnd (lift (validate_container_name name)) (\<lambda>_.
     bnd (lift (validate_cpu cpu)) (\<lambda>_.
     bnd (lift (validate_memory memory)) (\<lambda>_.
     bnd (container_exists name) (\<lambda>ex.
     if ex then throw (ValidationError (''Container already exists: '' @ name))
     else
       bnd (count_user_containers (USER E)) (\<lambda>user_count.
       if user_count \<ge> MAX_PER_USER E then throw (ValidationError ''Container limit reached'')
       else
         bnd count_all_containers (\<lambda>global_count.
         if global_count \<ge> MAX_GLOBAL E
           then throw (ValidationError ''Global container limit reached'')
         else
           bnd (check_podman E) (\<lambda>_.
           bnd (get_tailscale_authkey E (USER E)) (\<lambda>authkey.
           ret (authkey, get_tailscale_tags (USER E))))))))))"

text \<open>The inner \<^verbatim>\<open>try\<close> of \<^verbatim>\<open>create\<close>, entered after \<^verbatim>\<open>add_container\<close>.\<close>

definition create_launch ::
  "'w env \<Rightarrow> string \<Rightarrow> int \<Rightarrow> string \<Rightarrow> bool \<Rightarrow> bool \<Rightarrow> string \<Rightarrow> string \<Rightarrow> (unit, 'w) cmd" where
  "create_launch E name cpu memory no_start with_syncthing authkey tags =
     (let volume_name = name @ ''-data'' in
      bnd (podman_volume_exists E volume_name) (\<lambda>vol.
      bnd (if \<not> vol then podman_create_volume E volume_name else ret ()) (\<lambda>_.
      if no_start then update_container name [(''state'', JStr ''stopped'')]
      else
        bnd (podman_run_container E name volume_name cpu memory authkey tags with_syncthing) (\<lambda>_.
        bnd (wait_for_tailscale E name 60) (\<lambda>ts_ip.
        case ts_ip of
          Some ip \<Rightarrow> update_container name [(''state'', JStr ''running''), (''tailscaleIP'', JStr ip)]
        | None \<Rightarrow> update_container name [(''state'', JStr ''running'')])))))"

text \<open>The handler of the inner \<^verbatim>\<open>try\<close>: \<^verbatim>\<open>remove_container(name); raise\<close>.\<close>

definition create :: "'w env \<Rightarrow> string \<Rightarrow> int \<Rightarrow> string \<Rightarrow> bool \<Rightarrow> bool \<Rightarrow> (unit, 'w) cmd" where
  "create E name cpu memory no_start with_syncthing =
     bnd (create_checks E name cpu memory) (\<lambda>key.
     bnd (add_container E name (USER E) cpu memory with_syncthing) (\<lambda>_.
     try_except
       (create_launch E name cpu memory no_start with_syncthing (fst key) (snd key))
       (\<lambda>e. bnd (remove_container name) (\<lambda>_. throw e))))"

text \<open>The start of \<^verbatim>\<open>start\<close>, \<^verbatim>\<open>stop\<close>, \<^verbatim>\<open>destroy\<close>, \<^verbatim>\<open>status\<close>, \<^verbatim>\<open>logs\<close> and
  \<^verbatim>\<open>rotate-key\<close>: the record must exist, and the caller must own it or be an
  administrator (\<^verbatim>\<open>is_admin\<close> is asked only when the owner differs). A record that was
  found has the key \<^verbatim>\<open>name\<close>, so it is not the empty dict and \<^verbatim>\<open>not container\<close> is
  false for it.\<close>

definition lookup_owned :: "'w env \<Rightarrow> string \<Rightarrow> (json, 'w) cmd" where
  "lookup_owned E name =
     bnd (get_container name) (\<lambda>found.
     case found of
       None \<Rightarrow> throw (NotFoundError (''Container not found: '' @ name))
     | Some container \<Rightarrow>
         bnd (lift (getitem container ''owner'')) (\<lambda>owner.
         if owner \<noteq> JStr (USER E) then
           bnd (is_admin E (USER E)) (\<lambda>admin.
           if \<not> admin then throw (DevboxPermissionError ''Permission denied'')
           else ret container)
         else ret container))"

text \<open>\<^verbatim>\<open>destroy\<close>. The result \<open>Inr False\<close> is the return after "Aborted.".\<close>

definition destroy :: "'w env \<Rightarrow> string \<Rightarrow> bool \<Rightarrow> bool \<Rightarrow> (bool, 'w) cmd" where
  "destroy E name force keep_volume =
     bnd (lookup_owned E name) (\<lambda>container.
     bnd (if \<not> force
            then (\<lambda>s. case confirm E (world s) of (yes, w') \<Rightarrow> (Inr yes, s\<lparr>world := w'\<rparr>))
          else ret True) (\<lambda>go.
     if \<not> go then ret False
     else
       bnd (check_podman E) (\<lambda>_.
       bnd (podman_container_state E name) (\<lambda>st.
       bnd (if st = Some ''running'' then podman_stop_container E name else ret ()) (\<lambda>_.
       bnd (podman_container_exists E name) (\<lambda>ex.
       bnd (if ex then podman_remove_container E name True else ret ()) (\<lambda>_.
       bnd (if \<not> keep_volume then podman_remove_volume E (name @ ''-data'') else ret ()) (\<lambda>_.
       bnd (remove_container name) (\<lambda>_.
       ret True)))))))))"

text \<open>\<^verbatim>\<open>rotate-key\<close>. The logout runs without \<^verbatim>\<open>check\<close>; only a CalledProcessError of the
  two commands becomes a PodmanError.\<close>

definition rotate_key :: "'w env \<Rightarrow> string \<Rightarrow> (unit, 'w) cmd" where
  "rotate_key E name =
     bnd (lookup_owned E name) (\<lambda>container.
     bnd (lift (getitem container ''state'')) (\<lambda>st.
     if st \<noteq> JStr ''running'' then throw (ValidationError ''Container not running'')
     else
       bnd (check_podman E) (\<lambda>_.
       bnd (get_tailscale_authkey E (USER E)) (\<lambda>authkey.
       let tags = get_tailscale_tags (USER E) in
       bnd (try_except
              (bnd (run_command E [''podman'', ''exec'', name, ''tailscale'', ''logout''] False) (\<lambda>_.
               bnd (run_command E
                      [''podman'', ''exec'', name, ''tailscale'', ''up'',
                       ''--authkey='' @ authkey, ''--ssh'', ''--hostname='' @ name,
                       ''--advertise-tags='' @ tags] True) (\<lambda>_. ret ())))
              (\<lambda>e. case e of
                      CalledProcessError c \<Rightarrow> throw (PodmanError ''Failed to rotate auth key'')
                    | _ \<Rightarrow> throw e)) (\<lambda>_.
       bnd (get_timestamp E) (\<lambda>now.
       update_container name [(''lastActivityAt'', JStr now)]))))))"

subsection \<open>Several invocations at once\<close>

text \<open>
  Two shells can run the tool at the same time. Each invocation is a process of its own;
  the processes share the registry file, the advisory lock on it (\<^verbatim>\<open>fcntl.flock\<close>) and the
  clock. What follows is \<^verbatim>\<open>add_container\<close> once more, cut into the steps at which it touches
  one of the three, so that the steps of several processes can be interleaved.

  The file object \<^verbatim>\<open>f\<close> buffers what is written to it. \<^verbatim>\<open>f.truncate()\<close> empties the file at
  once, but the text of \<^verbatim>\<open>json.dump(registry, f)\<close> stays in the buffer of \<^verbatim>\<open>f\<close> until the
  \<^verbatim>\<open>with\<close> block closes the file, and the \<^verbatim>\<open>finally\<close> clause releases the lock before
  that. (Of a text longer than the buffer a first part reaches the file earlier; a proper
  part of the text of a dict is not JSON either.) From the truncation to the close the file
  is therefore \<^term>\<open>Damaged NotJSON\<close>. The same holds for the file that \<^verbatim>\<open>init_registry\<close>
  creates: it is empty until the \<^verbatim>\<open>with\<close> block of \<^verbatim>\<open>init_registry\<close> ends.
\<close>

text \<open>The arguments of one call: name, owner, cpu, memory, with_syncthing.\<close>

type_synonym call = "string \<times> string \<times> int \<times> string \<times> bool"

text \<open>
  Where a process stands, named by the statement it executes next, with the local
  variables that are live there: the loaded \<^verbatim>\<open>registry\<close>, and in the \<^verbatim>\<open>finally\<close> clause and
  at the end of the \<^verbatim>\<open>with\<close> block either the pending exception or the document waiting
  in the buffer.
\<close>

datatype stage =
    AtCreate
  | AtInitLock
  | AtInitUnlock
  | AtInitClose
  | AtOpen
  | AtLock
  | AtLoad
  | AtAppend json
  | AtTruncate json
  | AtUnlock "error + json"
  | AtClose "error + json"
  | Returned "error + unit"

text \<open>The shared state, who holds the lock, and the processes with their calls.\<close>

record 'w system =
  shared :: "'w state"
  lock :: "nat option"
  procs :: "(call \<times> stage) list"

text \<open>\<^verbatim>\<open>timestamp = get_timestamp(); registry["containers"].append({...})\<close>\<close>

definition appended :: "'w env \<Rightarrow> call \<Rightarrow> json \<Rightarrow> (json, 'w) cmd" where
  "appended E c registry =
     (case c of (name, owner, cpu, memory, with_syncthing) \<Rightarrow>
        bnd (get_timestamp E) (\<lambda>timestamp.
        bnd (lift (getitem registry ''containers'')) (\<lambda>containers.
        bnd (lift (py_append containers
                     (new_record name owner cpu memory with_syncthing timestamp))) (\<lambda>containers'.
        lift (setitem registry ''containers'' containers')))))"

text \<open>
  One step of process \<open>i\<close> with the call \<open>c\<close>: from where it stands, the shared state and
  the holder of the lock, to where it stands next, with the new shared state and holder.
  In \<^verbatim>\<open>init_registry\<close>: the exclusive create, which makes an empty file when there is none
  (otherwise FileExistsError, passed over); the lock on the new file; the unlock, with the
  empty registry in the buffer; the end of the \<^verbatim>\<open>with\<close> block, which writes it. In
  \<^verbatim>\<open>add_container\<close>: the open; the lock; \<^verbatim>\<open>json.load\<close>; the timestamp and the append;
  \<^verbatim>\<open>f.seek(0); f.truncate()\<close> with \<^verbatim>\<open>json.dump\<close> into the buffer; the unlock of the
  \<^verbatim>\<open>finally\<close> clause; the end of the \<^verbatim>\<open>with\<close> block, which writes the buffer. A process
  that asks for a lock another process holds waits: its step changes nothing. The write at
  the close starts where the file was cut; the file then holds the document, nothing else
  having been written to it since (\<open>close_finds_file_as_left\<close> below).
\<close>

fun advance ::
  "'w env \<Rightarrow> call \<Rightarrow> nat \<Rightarrow> stage \<Rightarrow> 'w state \<Rightarrow> nat option \<Rightarrow> stage \<times> 'w state \<times> nat option" where
  "advance E c i AtCreate s l =
     (case registry_file s of
        Absent \<Rightarrow> (AtInitLock, s\<lparr>registry_file := Damaged NotJSON\<rparr>, l)
      | _ \<Rightarrow> (AtOpen, s, l))"
| "advance E c i AtInitLock s l =
     (if l = None then (AtInitUnlock, s, Some i) else (AtInitLock, s, l))"
| "advance E c i AtInitUnlock s l = (AtInitClose, s, None)"
| "advance E c i AtInitClose s l = (AtOpen, s\<lparr>registry_file := Holds empty_registry\<rparr>, l)"
| "advance E c i AtOpen s l =
     (case registry_file s of
        Absent \<Rightarrow> (Returned (Inl FileNotFoundError), s, l)
      | _ \<Rightarrow> (AtLock, s, l))"
| "advance E c i AtLock s l =
     (if l = None then (AtLoad, s, Some i) else (AtLock, s, l))"
| "advance E c i AtLoad s l =
     (case json_load s of
        (Inl e, s') \<Rightarrow> (AtUnlock (Inl e), s, l)
      | (Inr registry, s') \<Rightarrow> (AtAppend registry, s, l))"
| "advance E c i (AtAppend registry) s l =
     (case appended E c registry s of
        (Inl e, s') \<Rightarrow> (AtUnlock (Inl e), s', l)
      | (Inr registry', s') \<Rightarrow> (AtTruncate registry', s', l))"
| "advance E c i (AtTruncate registry') s l =
     (AtUnlock (Inr registry'), s\<lparr>registry_file := Damaged NotJSON\<rparr>, l)"
| "advance E c i (AtUnlock r) s l = (AtClose r, s, None)"
| "advance E c i (AtClose (Inl e)) s l = (Returned (Inl e), s, l)"
| "advance E c i (AtClose (Inr registry')) s l =
     (Returned (Inr ()), s\<lparr>registry_file := Holds registry'\<rparr>, l)"
| "advance E c i (Returned r) s l = (Returned r, s, l)"

definition step :: "'w env \<Rightarrow> nat \<Rightarrow> 'w system \<Rightarrow> 'w system" where
  "step E i sys =
     (if length (procs sys) \<le> i then sys
      else
        case procs sys ! i of
          (c, st) \<Rightarrow>
            (case advance E c i st (shared sys) (lock sys) of
               (st', s', l') \<Rightarrow>
                 \<lparr>shared = s', lock = l', procs = (procs sys)[i := (c, st')]\<rparr>))"

text \<open>A schedule names the process that takes the next step, again and again.\<close>

fun run_schedule :: "'w env \<Rightarrow> nat list \<Rightarrow> 'w system \<Rightarrow> 'w system" where
  "run_schedule E [] sys = sys"
| "run_schedule E (i # schedule) sys = run_schedule E schedule (step E i sys)"

text \<open>The processes before their first step, nobody holding the lock.\<close>

definition started :: "'w state \<Rightarrow> call list \<Rightarrow> 'w system" where
  "started s cs = \<lparr>shared = s, lock = None, procs = map (\<lambda>c. (c, AtCreate)) cs\<rparr>"

text \<open>What the processes have returned, and the records in the file.\<close>

definition results :: "'w system \<Rightarrow> (error + unit) option list" where
  "results sys = map (\<lambda>p. case snd p of Returned r \<Rightarrow> Some r | _ \<Rightarrow> None) (procs sys)"

definition stored_records :: "'w system \<Rightarrow> json list option" where
  "stored_records sys =
     (case registry_file (shared sys) of
        Holds (JDict d) \<Rightarrow> (case map_of d ''containers'' of Some (JList xs) \<Rightarrow> Some xs | _ \<Rightarrow> None)
      | _ \<Rightarrow> None)"

text \<open>
  Three things to know of a process: whether it holds the lock; whether it has loaded the
  registry and not yet cut the file; whether it has a document waiting in its buffer, the
  file created or cut by it and not yet written. A system is consistent when a process that
  holds the lock is the one recorded as its holder, a waiting document goes with an unreadable
  file and there is at most one, and a loaded registry goes with a readable file.
\<close>

fun locked :: "stage \<Rightarrow> bool" where
  "locked AtInitUnlock = True"
| "locked AtLoad = True"
| "locked (AtAppend r) = True"
| "locked (AtTruncate r) = True"
| "locked (AtUnlock r) = True"
| "locked st = False"

fun loaded :: "stage \<Rightarrow> bool" where
  "loaded (AtAppend r) = True"
| "loaded (AtTruncate r) = True"
| "loaded st = False"

fun pending :: "stage \<Rightarrow> bool" where
  "pending AtInitLock = True"
| "pending AtInitUnlock = True"
| "pending AtInitClose = True"
| "pending (AtUnlock (Inr r)) = True"
| "pending (AtClose (Inr r)) = True"
| "pending st = False"

definition consistent :: "'w system \<Rightarrow> bool" where
  "consistent sys =
     ((\<forall>i < length (procs sys). locked (snd (procs sys ! i)) \<longrightarrow> lock sys = Some i)
    \<and> (\<forall>i < length (procs sys). pending (snd (procs sys ! i)) \<longrightarrow>
           registry_file (shared sys) = Damaged NotJSON)
    \<and> (\<forall>i < length (procs sys). \<forall>j < length (procs sys).
           pending (snd (procs sys ! i)) \<longrightarrow> pending (snd (procs sys ! j)) \<longrightarrow> i = j)
    \<and> (\<forall>i < length (procs sys). loaded (snd (procs sys ! i)) \<longrightarrow>
           (\<exists>d. registry_file (shared sys) = Holds d)))"

subsection \<open>Notions used in the statements and proofs\<close>

text \<open>What \<^verbatim>\<open>init_registry\<close> makes of the file.\<close>

definition init_file :: "stored \<Rightarrow> stored" where
  "init_file f = (case f of Absent \<Rightarrow> Holds empty_registry | _ \<Rightarrow> f)"

text \<open>A command that never changes the registry file; the exceptions a command can raise; a
  postcondition on the result and the file, for runs that start with the file \<open>F\<close>.\<close>

definition keeps_file :: "('a, 'w) cmd \<Rightarrow> bool" where
  "keeps_file m = (\<forall>s. registry_file (snd (m s)) = registry_file s)"

definition raises :: "('a, 'w) cmd \<Rightarrow> (error \<Rightarrow> bool) \<Rightarrow> bool" where
  "raises m P = (\<forall>s e. fst (m s) = Inl e \<longrightarrow> P e)"

definition file_post :: "stored \<Rightarrow> (error + 'a \<Rightarrow> stored \<Rightarrow> bool) \<Rightarrow> ('a, 'w) cmd \<Rightarrow> bool" where
  "file_post F Q m = (\<forall>s. registry_file s = F \<longrightarrow> Q (fst (m s)) (registry_file (snd (m s))))"

fun is_ValidationError :: "error \<Rightarrow> bool" where
  "is_ValidationError (ValidationError m) = True"
| "is_ValidationError e = False"

abbreviation (input) nv :: "error \<Rightarrow> bool" where
  "nv \<equiv> (\<lambda>e. \<not> is_ValidationError e)"

text \<open>The rule for names in the words of the specification: 3 to 63 characters, each a
  lowercase letter, a digit or a hyphen; the first a letter, the last a letter or a digit; no
  two hyphens in a row.\<close>

definition spec_valid_name :: "string \<Rightarrow> bool" where
  "spec_valid_name name =
     (3 \<le> length name \<and> length name \<le> 63
      \<and> list_all (in_class [(CHR ''a'', CHR ''z''), (CHR ''0'', CHR ''9''), (CHR ''-'', CHR ''-'')]) name
      \<and> in_class [(CHR ''a'', CHR ''z'')] (hd name)
      \<and> in_class [(CHR ''a'', CHR ''z''), (CHR ''0'', CHR ''9'')] (last name)
      \<and> \<not> contains name ''--'')"

subsection \<open>States and environments to run the commands on\<close>

text \<open>A registry of three records; the name \<^verbatim>\<open>api\<close> occurs twice, which the store itself
  does not forbid. And a state with no registry file yet.\<close>

definition demo_registry :: json where
  "demo_registry =
     JDict [(''version'', JInt 1),
            (''containers'',
             JList [JDict [(''name'', JStr ''web''), (''owner'', JStr ''ann''),
                           (''state'', JStr ''running'')],
                    JDict [(''name'', JStr ''api''), (''owner'', JStr ''bob''),
                           (''state'', JStr ''creating'')],
                    JDict [(''name'', JStr ''api''), (''owner'', JStr ''eve''),
                           (''state'', JStr ''creating'')]])]"

definition demo_state :: "unit state" where
  "demo_state = \<lparr>world = (), registry_file = Holds demo_registry, calls = []\<rparr>"

definition fresh_state :: "unit state" where
  "fresh_state = \<lparr>world = (), registry_file = Absent, calls = []\<rparr>"

text \<open>An environment in which every started program answers as the script says; the user is
  \<^verbatim>\<open>ann\<close>, who may own two containers.\<close>

definition scripted_env :: "(string list \<Rightarrow> proc) \<Rightarrow> unit env" where
  "scripted_env script =
     \<lparr>run_proc = (\<lambda>cmd w. (script cmd, w)),
      utc_now = (\<lambda>w. (''2025-01-01T00:00:00Z'', w)),
      confirm = (\<lambda>w. (True, w)),
      USER = ''ann'',
      OP_SERVICE_ACCOUNT_TOKEN = ''ops_token'',
      OP_VAULT = ''DevBox'',
      MAX_PER_USER = 2,
      MAX_GLOBAL = 7,
      CONTAINER_IMAGE = ''localhost/devcontainer:latest''\<rparr>"

text \<open>Every program succeeds and prints a well-formed auth key.\<close>

definition demo_env :: "unit env" where
  "demo_env = scripted_env (\<lambda>cmd. Exited 0 ''tskey-demo'' [])"

text \<open>The same, but \<^verbatim>\<open>tailscale up\<close> in the container \<^verbatim>\<open>web\<close> fails.\<close>

definition reauth_failing_env :: "unit env" where
  "reauth_failing_env =
     scripted_env (\<lambda>cmd. if take 5 cmd = [''podman'', ''exec'', ''web'', ''tailscale'', ''up'']
                         then Exited 1 [] ''denied''
                         else Exited 0 ''tskey-demo'' [])"

text \<open>The same, but \<^verbatim>\<open>podman run\<close> fails.\<close>

definition launch_failing_env :: "unit env" where
  "launch_failing_env =
     scripted_env (\<lambda>cmd. if take 2 cmd = [''podman'', ''run'']
                         then Exited 125 [] ''no such image''
                         else Exited 0 ''tskey-demo'' [])"

text \<open>Two calls by two users, on a registry file that holds the empty registry. In the
  first schedule one process runs to its end before the other starts. In the second, process
  1 starts when process 0 has released the lock and not yet closed the file.\<close>

definition alpha_call :: call where
  "alpha_call = (''alpha'', ''ann'', 2, ''4G'', False)"

definition beta_call :: call where
  "beta_call = (''beta'', ''bob'', 1, ''512M'', False)"

definition empty_state :: "unit state" where
  "empty_state = \<lparr>world = (), registry_file = Holds empty_registry, calls = []\<rparr>"

definition serial_schedule :: "nat list" where
  "serial_schedule = [0, 0, 0, 0, 0, 0, 0, 0, 1, 1, 1, 1, 1, 1, 1, 1]"

definition racing_schedule :: "nat list" where
  "racing_schedule = [0, 0, 0, 0, 0, 0, 0, 1, 1, 1, 1, 1, 1, 0]"

section \<open>Properties\<close>

lemmas cmd_defs = bnd_def ret_def throw_def lift_def try_except_def

subsection \<open>Name validation\<close>

text \<open>
  C4. The comment of \<^verbatim>\<open>NAME_PATTERN\<close> and the message of the ValidationError say that a
  name holds only lowercase letters, digits and hyphens. The pattern ends in \<^verbatim>\<open>$\<close>, which
  in Python also matches before a final newline: the four characters \<^verbatim>\<open>abc\n\<close> pass
  every check of \<^verbatim>\<open>validate_container_name\<close>, although the last one is none of the
  permitted characters.
\<close>

theorem validate_container_name_trailing_newline:
  "validate_container_name (''abc'' @ [CHR 0x0A]) = Inr ()"
  by (simp add: validate_container_name_def NAME_PATTERN_def in_class_def startswith_def)

text \<open>
  That newline is the whole difference. \<^verbatim>\<open>validate_container_name\<close> accepts exactly the
  names of the rule, and those names of at most 62 characters followed by one newline.
\<close>

lemma rep_iff:
  "lo \<le> hi \<Longrightarrow>
   rx_match (Rep cl lo hi # r) s =
     (\<exists>k. lo \<le> k \<and> k \<le> hi \<and> k \<le> length s \<and> list_all (in_class cl) (take k s)
          \<and> rx_match r (drop k s))"
proof (induction s arbitrary: lo hi)
  case Nil
  then show ?case by (cases lo) auto
next
  case (Cons c cs)
  show ?case
  proof (cases lo)
    case 0
    show ?thesis
    proof (cases hi)
      case 0
      then show ?thesis using \<open>lo = 0\<close> by auto
    next
      case (Suc h)
      have ih: "rx_match (Rep cl 0 h # r) cs =
        (\<exists>k. k \<le> h \<and> k \<le> length cs \<and> list_all (in_class cl) (take k cs) \<and> rx_match r (drop k cs))"
        using Cons.IH[of 0 h] by simp
      show ?thesis
      proof
        assume "rx_match (Rep cl lo hi # r) (c # cs)"
        then consider "in_class cl c" "rx_match (Rep cl 0 h # r) cs" | "rx_match r (c # cs)"
          using \<open>lo = 0\<close> Suc by auto
        then show "\<exists>k. lo \<le> k \<and> k \<le> hi \<and> k \<le> length (c # cs) \<and>
            list_all (in_class cl) (take k (c # cs)) \<and> rx_match r (drop k (c # cs))"
        proof cases
          case 1
          then obtain k where "k \<le> h" "k \<le> length cs" "list_all (in_class cl) (take k cs)"
            "rx_match r (drop k cs)" using ih by blast
          then show ?thesis using 1 \<open>lo = 0\<close> Suc by (intro exI[of _ "Suc k"]) simp
        next
          case 2
          then show ?thesis using \<open>lo = 0\<close> by (intro exI[of _ 0]) simp
        qed
      next
        assume "\<exists>k. lo \<le> k \<and> k \<le> hi \<and> k \<le> length (c # cs) \<and>
            list_all (in_class cl) (take k (c # cs)) \<and> rx_match r (drop k (c # cs))"
        then obtain k where k: "k \<le> hi" "k \<le> length (c # cs)"
          "list_all (in_class cl) (take k (c # cs))" "rx_match r (drop k (c # cs))" by blast
        show "rx_match (Rep cl lo hi # r) (c # cs)"
        proof (cases k)
          case 0
          then show ?thesis using k \<open>lo = 0\<close> by simp
        next
          case (Suc j)
          then have "j \<le> h" "j \<le> length cs" "list_all (in_class cl) (take j cs)"
            "rx_match r (drop j cs)" "in_class cl c"
            using k \<open>hi = Suc h\<close> by simp_all
          then have "rx_match (Rep cl 0 h # r) cs" using ih by blast
          then show ?thesis using \<open>in_class cl c\<close> \<open>lo = 0\<close> \<open>hi = Suc h\<close> by simp
        qed
      qed
    qed
  next
    case (Suc l)
    then obtain h where h: "hi = Suc h" "l \<le> h" using Cons.prems by (cases hi) auto
    have ih: "rx_match (Rep cl l h # r) cs =
        (\<exists>k. l \<le> k \<and> k \<le> h \<and> k \<le> length cs \<and> list_all (in_class cl) (take k cs) \<and> rx_match r (drop k cs))"
      using Cons.IH[OF h(2)] by simp
    show ?thesis
    proof
      assume "rx_match (Rep cl lo hi # r) (c # cs)"
      then have "in_class cl c" "rx_match (Rep cl l h # r) cs"
        using Suc h by auto
      then obtain k where "l \<le> k" "k \<le> h" "k \<le> length cs" "list_all (in_class cl) (take k cs)"
        "rx_match r (drop k cs)" using ih by blast
      then show "\<exists>k. lo \<le> k \<and> k \<le> hi \<and> k \<le> length (c # cs) \<and>
            list_all (in_class cl) (take k (c # cs)) \<and> rx_match r (drop k (c # cs))"
        using \<open>in_class cl c\<close> Suc h by (intro exI[of _ "Suc k"]) simp
    next
      assume "\<exists>k. lo \<le> k \<and> k \<le> hi \<and> k \<le> length (c # cs) \<and>
            list_all (in_class cl) (take k (c # cs)) \<and> rx_match r (drop k (c # cs))"
      then obtain k where k: "lo \<le> k" "k \<le> hi" "k \<le> length (c # cs)"
          "list_all (in_class cl) (take k (c # cs))" "rx_match r (drop k (c # cs))" by blast
      then obtain j where j: "k = Suc j" using Suc by (cases k) auto
      then have "l \<le> j" "j \<le> h" "j \<le> length cs" "list_all (in_class cl) (take j cs)"
            "rx_match r (drop j cs)" "in_class cl c"
        using k Suc h by simp_all
      then have "rx_match (Rep cl l h # r) cs" using ih by blast
      then show "rx_match (Rep cl lo hi # r) (c # cs)"
        using \<open>in_class cl c\<close> Suc h by simp
    qed
  qed
qed

lemma tail_iff:
  "rx_match [One cl, Eos] u = (\<exists>l. in_class cl l \<and> (u = [l] \<or> u = [l, CHR 0x0A]))"
  by (cases u) auto

lemma name_pattern_iff:
  "rx_match NAME_PATTERN s =
     (\<exists>c mid l. (s = c # mid @ [l] \<or> s = c # mid @ [l, CHR 0x0A])
        \<and> in_class [(CHR ''a'', CHR ''z'')] c
        \<and> 1 \<le> length mid \<and> length mid \<le> 61
        \<and> list_all (in_class [(CHR ''a'', CHR ''z''), (CHR ''0'', CHR ''9''), (CHR ''-'', CHR ''-'')]) mid
        \<and> in_class [(CHR ''a'', CHR ''z''), (CHR ''0'', CHR ''9'')] l)"
  (is "?L = ?R")
proof
  assume ?L
  then obtain c rest where s: "s = c # rest" and c: "in_class [(CHR ''a'', CHR ''z'')] c"
    and m: "rx_match [Rep [(CHR ''a'', CHR ''z''), (CHR ''0'', CHR ''9''), (CHR ''-'', CHR ''-'')] 1 61,
                      One [(CHR ''a'', CHR ''z''), (CHR ''0'', CHR ''9'')], Eos] rest"
    by (cases s) (auto simp: NAME_PATTERN_def)
  from m obtain k where k: "1 \<le> k" "k \<le> 61" "k \<le> length rest"
    "list_all (in_class [(CHR ''a'', CHR ''z''), (CHR ''0'', CHR ''9''), (CHR ''-'', CHR ''-'')]) (take k rest)"
    "rx_match [One [(CHR ''a'', CHR ''z''), (CHR ''0'', CHR ''9'')], Eos] (drop k rest)"
    by (subst (asm) rep_iff) auto
  from k(5) obtain l where l: "in_class [(CHR ''a'', CHR ''z''), (CHR ''0'', CHR ''9'')] l"
    "drop k rest = [l] \<or> drop k rest = [l, CHR 0x0A]"
    by (subst (asm) tail_iff) auto
  have "rest = take k rest @ drop k rest" by simp
  then have "s = c # take k rest @ [l] \<or> s = c # take k rest @ [l, CHR 0x0A]"
    using s l(2) by metis
  moreover have "length (take k rest) = k" using k(3) by simp
  ultimately show ?R using c k l(1) by (intro exI[of _ c] exI[of _ "take k rest"] exI[of _ l]) simp
next
  assume ?R
  then obtain c mid l where s: "s = c # mid @ [l] \<or> s = c # mid @ [l, CHR 0x0A]"
    and c: "in_class [(CHR ''a'', CHR ''z'')] c"
    and n: "1 \<le> length mid" "length mid \<le> 61"
    and mid: "list_all (in_class [(CHR ''a'', CHR ''z''), (CHR ''0'', CHR ''9''), (CHR ''-'', CHR ''-'')]) mid"
    and l: "in_class [(CHR ''a'', CHR ''z''), (CHR ''0'', CHR ''9'')] l" by blast
  from s obtain tl where tl: "s = c # mid @ l # tl" "tl = [] \<or> tl = [CHR 0x0A]" by auto
  have t: "rx_match [One [(CHR ''a'', CHR ''z''), (CHR ''0'', CHR ''9'')], Eos] (l # tl)"
    using l tl(2) by (subst tail_iff) auto
  have "rx_match [Rep [(CHR ''a'', CHR ''z''), (CHR ''0'', CHR ''9''), (CHR ''-'', CHR ''-'')] 1 61,
                      One [(CHR ''a'', CHR ''z''), (CHR ''0'', CHR ''9'')], Eos] (mid @ l # tl)"
    by (subst rep_iff, simp, rule exI[of _ "length mid"]) (use n mid t in simp)
  then show ?L using c tl(1) by (simp add: NAME_PATTERN_def)
qed

lemma contains_snoc: "c \<noteq> CHR ''-'' \<Longrightarrow> contains (t @ [c]) ''--'' = contains t ''--''"
proof (induction t)
  case Nil
  then show ?case by (simp add: startswith_def)
next
  case (Cons x xs)
  then show ?case by (cases xs) (auto simp: startswith_def)
qed

lemma class_lower_mid:
  "in_class [(CHR ''a'', CHR ''z'')] c \<Longrightarrow>
   in_class [(CHR ''a'', CHR ''z''), (CHR ''0'', CHR ''9''), (CHR ''-'', CHR ''-'')] c"
  by (simp add: in_class_def)

lemma class_alnum_mid:
  "in_class [(CHR ''a'', CHR ''z''), (CHR ''0'', CHR ''9'')] c \<Longrightarrow>
   in_class [(CHR ''a'', CHR ''z''), (CHR ''0'', CHR ''9''), (CHR ''-'', CHR ''-'')] c"
  by (auto simp: in_class_def)

lemma spec_valid_name_iff:
  "spec_valid_name t =
     ((\<exists>c mid l. t = c # mid @ [l]
        \<and> in_class [(CHR ''a'', CHR ''z'')] c
        \<and> 1 \<le> length mid \<and> length mid \<le> 61
        \<and> list_all (in_class [(CHR ''a'', CHR ''z''), (CHR ''0'', CHR ''9''), (CHR ''-'', CHR ''-'')]) mid
        \<and> in_class [(CHR ''a'', CHR ''z''), (CHR ''0'', CHR ''9'')] l)
      \<and> \<not> contains t ''--'')"
  (is "?L = (?C \<and> ?N)")
proof
  assume L: ?L
  then have len: "3 \<le> length t" "length t \<le> 63" by (simp_all add: spec_valid_name_def)
  then obtain c r where cr: "t = c # r" "r \<noteq> []" by (cases t) fastforce+
  then obtain mid l where r: "r = mid @ [l]" by (metis rev_exhaust)
  have "t = c # mid @ [l]" using cr r by simp
  moreover have "1 \<le> length mid" "length mid \<le> 61" using len cr r by simp_all
  ultimately show "?C \<and> ?N" using L by (auto simp: spec_valid_name_def)
next
  assume "?C \<and> ?N"
  then show ?L
    by (auto simp: spec_valid_name_def class_lower_mid class_alnum_mid)
qed

lemma validate_container_name_iff:
  "validate_container_name name = Inr () \<longleftrightarrow>
     spec_valid_name name
     \<or> (\<exists>t. name = t @ [CHR 0x0A] \<and> spec_valid_name t \<and> length t \<le> 62)"
  (is "?L = (?A \<or> ?B)")
proof
  assume ?L
  then have len: "3 \<le> length name" "length name \<le> 63"
    and pat: "rx_match NAME_PATTERN name" and nn: "\<not> contains name ''--''"
    by (auto simp: validate_container_name_def split: if_splits)
  from pat obtain c mid l where s: "name = c # mid @ [l] \<or> name = c # mid @ [l, CHR 0x0A]"
    and rest: "in_class [(CHR ''a'', CHR ''z'')] c" "1 \<le> length mid" "length mid \<le> 61"
      "list_all (in_class [(CHR ''a'', CHR ''z''), (CHR ''0'', CHR ''9''), (CHR ''-'', CHR ''-'')]) mid"
      "in_class [(CHR ''a'', CHR ''z''), (CHR ''0'', CHR ''9'')] l"
    by (subst (asm) name_pattern_iff) blast
  from s show "?A \<or> ?B"
  proof
    assume "name = c # mid @ [l]"
    then have ?A using rest nn by (subst spec_valid_name_iff) blast
    then show ?thesis ..
  next
    assume n: "name = c # mid @ [l, CHR 0x0A]"
    define t where "t = c # mid @ [l]"
    have nt: "name = t @ [CHR 0x0A]" using n by (simp add: t_def)
    have "\<not> contains t ''--''" using nn contains_snoc[of "CHR 0x0A" t] by (simp add: nt)
    then have "spec_valid_name t" using rest by (subst spec_valid_name_iff) (auto simp: t_def)
    moreover have "length t \<le> 62" using len(2) nt by simp
    ultimately have ?B using nt by blast
    then show ?thesis ..
  qed
next
  assume "?A \<or> ?B"
  then show ?L
  proof
    assume A: ?A
    then have "rx_match NAME_PATTERN name"
      by (subst name_pattern_iff, subst (asm) spec_valid_name_iff) blast
    then show ?L using A by (simp add: validate_container_name_def spec_valid_name_def)
  next
    assume ?B
    then obtain t where t: "name = t @ [CHR 0x0A]" "spec_valid_name t" "length t \<le> 62" by blast
    from t(2) obtain c mid l where "t = c # mid @ [l]"
      and rest: "in_class [(CHR ''a'', CHR ''z'')] c" "1 \<le> length mid" "length mid \<le> 61"
      "list_all (in_class [(CHR ''a'', CHR ''z''), (CHR ''0'', CHR ''9''), (CHR ''-'', CHR ''-'')]) mid"
      "in_class [(CHR ''a'', CHR ''z''), (CHR ''0'', CHR ''9'')] l"
      by (subst (asm) spec_valid_name_iff) blast
    then have "name = c # mid @ [l, CHR 0x0A]" using t(1) by simp
    then have pat: "rx_match NAME_PATTERN name" using rest by (subst name_pattern_iff) blast
    have "\<not> contains name ''--''"
      using t(2) contains_snoc[of "CHR 0x0A" t] by (simp add: t(1) spec_valid_name_def)
    moreover have "3 \<le> length name" "length name \<le> 63"
      using t by (simp_all add: spec_valid_name_def)
    ultimately show ?L using pat by (simp add: validate_container_name_def)
  qed
qed

subsection \<open>Reading the registry\<close>

text \<open>
  C3, as the code has it. \<^verbatim>\<open>load_registry\<close> returns whatever value \<^verbatim>\<open>json.load\<close> reads
  from the file: it looks neither at the version field nor at the shape of the document.
  Where \<^verbatim>\<open>json.load\<close> fails on the content, its own exception leaves \<^verbatim>\<open>load_registry\<close>
  (UnicodeDecodeError, JSONDecodeError, RecursionError or ValueError); the code has no
  CorruptionError. When there is no file it first writes the empty registry and returns
  that. The file is otherwise left as it is.
\<close>

theorem load_registry_returns_stored_document:
  "load_registry s =
     (case registry_file s of
        Absent \<Rightarrow> (Inr empty_registry, s\<lparr>registry_file := Holds empty_registry\<rparr>)
      | Damaged d \<Rightarrow> (Inl (load_error d), s)
      | Holds j \<Rightarrow> (Inr j, s))"
  by (simp add: load_registry_def init_registry_def json_load_def cmd_defs split: stored.splits)

text \<open>
  C3, as the specification has it, fails: a document whose version is 2 is read without
  any error.
\<close>

theorem load_registry_accepts_other_version:
  "fst (load_registry
          \<lparr>world = (),
           registry_file = Holds (JDict [(''version'', JInt 2), (''containers'', JList [])]),
           calls = []\<rparr>)
     = Inr (JDict [(''version'', JInt 2), (''containers'', JList [])])"
  by (simp add: load_registry_def init_registry_def json_load_def cmd_defs)

subsection \<open>Updating a record\<close>

lemma find_none_update_first:
  "find_container xs name = Inr None \<Longrightarrow> update_first xs name updates = Inr xs"
  by (induction xs) (auto split: sum.splits if_splits)

lemma put_back_iterate: "iterate cs = Inr xs \<Longrightarrow> put_back cs xs = cs"
  by (cases cs) auto

lemma setitem_same: "getitem r k = Inr v \<Longrightarrow> setitem r k v = Inr r"
  by (cases r) (auto simp: AList.update_triv split: option.splits)

text \<open>
  C9. When no record has the name (the loop of \<^verbatim>\<open>get_container\<close> runs to its end and
  returns None), \<^verbatim>\<open>update_container\<close> raises nothing and writes back what it read: the
  state is the one it started in, except that a missing file has become the empty registry,
  as \<^verbatim>\<open>init_registry\<close> does in every registry operation. The updates are the keyword
  arguments of the call, so \<^verbatim>\<open>name\<close> is not among their keys.
\<close>

theorem update_container_no_match:
  assumes "fst (get_container name s) = Inr None"
    and "''name'' \<notin> set (map fst updates)"
  shows "update_container name updates s =
           (Inr (), s\<lparr>registry_file := init_file (registry_file s)\<rparr>)"
  using assms
  by (auto simp: update_container_def get_container_def load_registry_def init_registry_def
        json_load_def json_dump_def cmd_defs find_none_update_first put_back_iterate setitem_same
        empty_registry_def init_file_def
      split: stored.splits sum.splits prod.splits)

theorem update_container_no_match_witness:
  "update_container ''db'' [(''state'', JStr ''stopped'')] demo_state = (Inr (), demo_state)"
proof -
  have h1: "fst (get_container ''db'' demo_state) = Inr None"
    by (simp add: demo_state_def demo_registry_def get_container_def load_registry_def
          init_registry_def json_load_def cmd_defs)
  have h2: "''name'' \<notin> set (map fst [(''state'', JStr ''stopped'')])"
    by simp
  show ?thesis
    using update_container_no_match[OF h1 h2]
    by (simp add: demo_state_def demo_registry_def init_file_def)
qed

lemma update_first_at_first_match:
  "find_container pre name = Inr None \<Longrightarrow> map_of d ''name'' = Some (JStr name) \<Longrightarrow>
   update_first (pre @ JDict d # post) name updates =
     Inr (pre @ JDict (dict_update d updates) # post)"
  by (induction pre) (auto split: sum.splits if_splits)

lemma map_of_dict_update: "map_of (dict_update d updates) = map_of d ++ map_of (rev updates)"
proof (induction updates arbitrary: d)
  case Nil
  then show ?case by (simp add: dict_update_def)
next
  case (Cons u us)
  have "dict_update d (u # us) = dict_update (AList.update (fst u) (snd u) d) us"
    by (simp add: dict_update_def)
  then have "map_of (dict_update d (u # us)) = (map_of d)(fst u \<mapsto> snd u) ++ map_of (rev us)"
    by (simp only: Cons.IH update_conv')
  also have "\<dots> = map_of d ++ map_of (rev (u # us))"
    by (cases u) (simp add: map_add_upd_left)
  finally show ?case .
qed

lemma map_of_dict_update_other:
  assumes "k \<notin> set (map fst updates)"
  shows "map_of (dict_update d updates) k = map_of d k"
proof -
  have "k \<notin> fst ` set (rev updates)" using assms by simp
  then have "map_of (rev updates) k = None" by (rule map_of_eq_None_iff[THEN iffD2])
  then show ?thesis by (simp add: map_of_dict_update map_add_def)
qed

lemma keys_update_present:
  "map_of reg k = Some v \<Longrightarrow> map fst (AList.update k v' reg) = map fst reg"
  by (induction reg) auto

lemma update_container_at_first_match:
  assumes "registry_file s = Holds (JDict reg)"
    and "map_of reg ''containers'' = Some (JList (pre @ JDict d # post))"
    and "find_container pre name = Inr None"
    and "map_of d ''name'' = Some (JStr name)"
    and "''name'' \<notin> set (map fst updates)"
  shows "update_container name updates s =
           (Inr (), s\<lparr>registry_file := Holds (JDict (AList.update ''containers''
                         (JList (pre @ JDict (dict_update d updates) # post)) reg))\<rparr>)"
  using assms
  by (simp add: update_container_def init_registry_def json_load_def json_dump_def cmd_defs
        update_first_at_first_match)

text \<open>
  C10. The registry holds the records \<open>pre @ JDict d # post\<close>, where no record of \<open>pre\<close>
  has the name and \<open>d\<close> has it: \<open>d\<close> is the first match. \<^verbatim>\<open>update_container\<close> then
  succeeds, and the file it leaves differs from the one it found in that record alone:
  \<open>pre\<close> and \<open>post\<close> (which may hold further records of the same name) stand where they
  stood, the registry keeps its keys in their order and the values of all keys but
  \<^verbatim>\<open>containers\<close> (the version among them), and in the record every key that is not a
  key of the updates keeps its value. The last conjunct says what the record reads after
  the update: the old fields overridden by the updates.
\<close>

theorem update_container_frame:
  assumes "registry_file s = Holds (JDict reg)"
    and "map_of reg ''containers'' = Some (JList (pre @ JDict d # post))"
    and "find_container pre name = Inr None"
    and "map_of d ''name'' = Some (JStr name)"
    and "''name'' \<notin> set (map fst updates)"
  shows "update_container name updates s =
           (Inr (), s\<lparr>registry_file := Holds (JDict (AList.update ''containers''
                         (JList (pre @ JDict (dict_update d updates) # post)) reg))\<rparr>)
         \<and> map fst (AList.update ''containers''
                         (JList (pre @ JDict (dict_update d updates) # post)) reg) = map fst reg
         \<and> (\<forall>k. k \<noteq> ''containers'' \<longrightarrow>
               map_of (AList.update ''containers''
                         (JList (pre @ JDict (dict_update d updates) # post)) reg) k = map_of reg k)
         \<and> (\<forall>k. k \<notin> set (map fst updates) \<longrightarrow> map_of (dict_update d updates) k = map_of d k)
         \<and> map_of (dict_update d updates) = map_of d ++ map_of (rev updates)"
proof -
  have run: "update_container name updates s =
           (Inr (), s\<lparr>registry_file := Holds (JDict (AList.update ''containers''
                         (JList (pre @ JDict (dict_update d updates) # post)) reg))\<rparr>)"
    using assms by (rule update_container_at_first_match)
  have keys: "map fst (AList.update ''containers''
                         (JList (pre @ JDict (dict_update d updates) # post)) reg) = map fst reg"
    using assms(2) by (rule keys_update_present)
  have other: "\<forall>k. k \<noteq> ''containers'' \<longrightarrow>
               map_of (AList.update ''containers''
                         (JList (pre @ JDict (dict_update d updates) # post)) reg) k = map_of reg k"
    by (simp add: update_conv')
  show ?thesis
    by (intro conjI allI impI run keys other[rule_format] map_of_dict_update_other
          map_of_dict_update)
qed

theorem update_container_frame_witness:
  "update_container ''api'' [(''state'', JStr ''stopped'')] demo_state =
     (Inr (),
      demo_state\<lparr>registry_file := Holds (JDict [(''version'', JInt 1),
            (''containers'',
             JList [JDict [(''name'', JStr ''web''), (''owner'', JStr ''ann''),
                           (''state'', JStr ''running'')],
                    JDict [(''name'', JStr ''api''), (''owner'', JStr ''bob''),
                           (''state'', JStr ''stopped'')],
                    JDict [(''name'', JStr ''api''), (''owner'', JStr ''eve''),
                           (''state'', JStr ''creating'')]])])\<rparr>)"
proof -
  have h1: "registry_file demo_state = Holds (JDict [(''version'', JInt 1),
            (''containers'',
             JList [JDict [(''name'', JStr ''web''), (''owner'', JStr ''ann''),
                           (''state'', JStr ''running'')],
                    JDict [(''name'', JStr ''api''), (''owner'', JStr ''bob''),
                           (''state'', JStr ''creating'')],
                    JDict [(''name'', JStr ''api''), (''owner'', JStr ''eve''),
                           (''state'', JStr ''creating'')]])])"
    by (simp add: demo_state_def demo_registry_def)
  have h2: "map_of [(''version'', JInt 1),
            (''containers'',
             JList [JDict [(''name'', JStr ''web''), (''owner'', JStr ''ann''),
                           (''state'', JStr ''running'')],
                    JDict [(''name'', JStr ''api''), (''owner'', JStr ''bob''),
                           (''state'', JStr ''creating'')],
                    JDict [(''name'', JStr ''api''), (''owner'', JStr ''eve''),
                           (''state'', JStr ''creating'')]])]
             ''containers'' =
        Some (JList ([JDict [(''name'', JStr ''web''), (''owner'', JStr ''ann''),
                             (''state'', JStr ''running'')]]
                   @ JDict [(''name'', JStr ''api''), (''owner'', JStr ''bob''),
                            (''state'', JStr ''creating'')]
                   # [JDict [(''name'', JStr ''api''), (''owner'', JStr ''eve''),
                             (''state'', JStr ''creating'')]]))"
    by simp
  have h3: "find_container [JDict [(''name'', JStr ''web''), (''owner'', JStr ''ann''),
                                   (''state'', JStr ''running'')]] ''api'' = Inr None"
    by simp
  have h4: "map_of [(''name'', JStr ''api''), (''owner'', JStr ''bob''),
                    (''state'', JStr ''creating'')] ''name'' = Some (JStr ''api'')"
    by simp
  have h5: "''name'' \<notin> set (map fst [(''state'', JStr ''stopped'')])"
    by simp
  show ?thesis
    using update_container_frame[OF h1 h2 h3 h4 h5, THEN conjunct1]
    by (simp add: dict_update_def)
qed

subsection \<open>Commands that leave the registry file alone\<close>

named_theorems keeps

lemma keeps_ret [keeps]: "keeps_file (ret a)"
  by (simp add: keeps_file_def ret_def)

lemma keeps_throw [keeps]: "keeps_file (throw e)"
  by (simp add: keeps_file_def throw_def)

lemma keeps_lift [keeps]: "keeps_file (lift r)"
  by (simp add: keeps_file_def lift_def)

lemma keeps_bnd [keeps]: "keeps_file m \<Longrightarrow> (\<And>a. keeps_file (f a)) \<Longrightarrow> keeps_file (bnd m f)"
  by (auto simp: keeps_file_def bnd_def split: prod.splits sum.splits) (metis snd_conv)+

lemma keeps_try [keeps]:
  "keeps_file m \<Longrightarrow> (\<And>e. keeps_file (h e)) \<Longrightarrow> keeps_file (try_except m h)"
  by (auto simp: keeps_file_def try_except_def split: prod.splits sum.splits) (metis snd_conv)+

lemma keeps_if [keeps]: "keeps_file a \<Longrightarrow> keeps_file b \<Longrightarrow> keeps_file (if c then a else b)"
  by simp

lemma keeps_run_command [keeps]: "keeps_file (run_command E cmd check)"
  by (simp add: keeps_file_def run_command_def Let_def split: prod.splits proc.splits)

lemma keeps_get_timestamp [keeps]: "keeps_file (get_timestamp E)"
  by (simp add: keeps_file_def get_timestamp_def split: prod.splits)

lemma keeps_rethrow_fnf [keeps]:
  "keeps_file (case e of FileNotFoundError \<Rightarrow> throw e1 | _ \<Rightarrow> throw e)"
  by (cases e) (simp_all add: keeps)

lemma keeps_rethrow_cpe [keeps]:
  "keeps_file (case e of CalledProcessError c \<Rightarrow> throw e1 | _ \<Rightarrow> throw e)"
  by (cases e) (simp_all add: keeps)

lemma keeps_is_admin [keeps]: "keeps_file (is_admin E user)"
  unfolding is_admin_def Let_def by (intro keeps)

lemma keeps_check_op_cli [keeps]: "keeps_file (check_op_cli E)"
  unfolding check_op_cli_def by (intro keeps)

lemma keeps_check_op_auth [keeps]: "keeps_file (check_op_auth E)"
  unfolding check_op_auth_def by (intro keeps)

lemma keeps_get_tailscale_authkey [keeps]: "keeps_file (get_tailscale_authkey E username)"
  unfolding get_tailscale_authkey_def Let_def by (intro keeps)

lemma keeps_check_podman [keeps]: "keeps_file (check_podman E)"
  unfolding check_podman_def by (intro keeps)

lemma keeps_podman_volume_exists [keeps]: "keeps_file (podman_volume_exists E name)"
  unfolding podman_volume_exists_def by (intro keeps)

lemma keeps_podman_create_volume [keeps]: "keeps_file (podman_create_volume E name)"
  unfolding podman_create_volume_def by (intro keeps)

lemma keeps_podman_remove_volume [keeps]: "keeps_file (podman_remove_volume E name)"
  unfolding podman_remove_volume_def by (intro keeps)

lemma keeps_podman_container_exists [keeps]: "keeps_file (podman_container_exists E name)"
  unfolding podman_container_exists_def by (intro keeps)

lemma keeps_podman_container_state [keeps]: "keeps_file (podman_container_state E name)"
  unfolding podman_container_state_def by (intro keeps)

lemma keeps_podman_stop_container [keeps]: "keeps_file (podman_stop_container E name)"
  unfolding podman_stop_container_def by (intro keeps)

lemma keeps_podman_remove_container [keeps]: "keeps_file (podman_remove_container E name force)"
  unfolding podman_remove_container_def by (intro keeps)

lemma keeps_podman_run_container [keeps]:
  "keeps_file (podman_run_container E name volume cpu memory authkey tags ws)"
  unfolding podman_run_container_def by (intro keeps)

lemma keeps_found [keeps]:
  "keeps_file b \<Longrightarrow> (\<And>x. keeps_file (f x)) \<Longrightarrow> keeps_file (case v of None \<Rightarrow> b | Some x \<Rightarrow> f x)"
  by (cases v) simp_all

lemma keeps_wait_for_tailscale [keeps]: "keeps_file (wait_for_tailscale E name timeout)"
  by (induction timeout) (auto intro!: keeps)

lemma keeps_fileD: "keeps_file m \<Longrightarrow> m s = (r, s') \<Longrightarrow> registry_file s' = registry_file s"
  by (metis keeps_file_def snd_conv)

lemma file_post_bnd:
  fixes m :: "('a, 'w) cmd"
  assumes "keeps_file m" and "\<And>e. Q (Inl e) F" and "\<And>a. file_post F Q (f a)"
  shows "file_post F Q (bnd m f)"
  unfolding file_post_def
proof (intro allI impI)
  fix s :: "'w state"
  assume F: "registry_file s = F"
  obtain r s1 where m: "m s = (r, s1)" by (cases "m s")
  have F1: "registry_file s1 = F" using keeps_fileD[OF assms(1) m] F by simp
  show "Q (fst (bnd m f s)) (registry_file (snd (bnd m f s)))"
  proof (cases r)
    case (Inl e)
    then show ?thesis using m F1 assms(2) by (simp add: bnd_def)
  next
    case (Inr a)
    then have "bnd m f s = f a s1" using m by (simp add: bnd_def)
    then show ?thesis using assms(3)[of a] F1 by (simp add: file_post_def)
  qed
qed

lemma file_post_throw: "Q (Inl e) F \<Longrightarrow> file_post F Q (throw e)"
  by (simp add: file_post_def throw_def)

lemma file_postD:
  "file_post F Q m \<Longrightarrow> registry_file s = F \<Longrightarrow> Q (fst (m s)) (registry_file (snd (m s)))"
  by (simp add: file_post_def)

subsection \<open>Destroying what is not there\<close>

lemma init_registry_eq: "init_registry s = (Inr (), s\<lparr>registry_file := init_file (registry_file s)\<rparr>)"
  by (cases "registry_file s") (simp_all add: init_registry_def init_file_def)

lemma init_file_idem [simp]: "init_file (init_file f) = init_file f"
  by (cases f) (simp_all add: init_file_def)

lemma init_file_Holds [simp]: "init_file (Holds j) = Holds j"
  by (simp add: init_file_def)

lemma load_registry_state: "snd (load_registry s) = s\<lparr>registry_file := init_file (registry_file s)\<rparr>"
  by (cases "registry_file s")
     (simp_all add: load_registry_def init_registry_def json_load_def init_file_def cmd_defs)

lemma get_container_state:
  "snd (get_container name s) = s\<lparr>registry_file := init_file (registry_file s)\<rparr>"
  by (cases "registry_file s")
     (auto simp: get_container_def load_registry_def init_registry_def json_load_def
         init_file_def cmd_defs split: sum.splits prod.splits)

text \<open>
  C7. When no record has the name, \<^verbatim>\<open>destroy\<close> raises NotFoundError, a DevboxError that
  the handler of the command prints before it exits with status 1. Nothing was started (the
  log of commands and the world are those of the start), and the registry file is the one of
  the start, except that a missing file has become the empty registry.
\<close>

theorem destroy_not_found:
  assumes "fst (get_container name s) = Inr None"
  shows "destroy E name force keep_volume s =
           (Inl (NotFoundError (''Container not found: '' @ name)),
            s\<lparr>registry_file := init_file (registry_file s)\<rparr>)"
proof -
  have "get_container name s = (Inr None, s\<lparr>registry_file := init_file (registry_file s)\<rparr>)"
    using assms get_container_state[of name s] by (simp add: prod_eq_iff)
  then show ?thesis
    by (simp add: destroy_def lookup_owned_def cmd_defs)
qed

theorem destroy_not_found_witness:
  "destroy demo_env ''web'' True False (snd (destroy demo_env ''web'' True False demo_state)) =
     (Inl (NotFoundError ''Container not found: web''),
      snd (destroy demo_env ''web'' True False demo_state))"
proof -
  have first: "destroy demo_env ''web'' True False demo_state =
      (Inr True,
       \<lparr>world = (),
        registry_file = Holds (JDict [(''version'', JInt 1),
            (''containers'',
             JList [JDict [(''name'', JStr ''api''), (''owner'', JStr ''bob''),
                           (''state'', JStr ''creating'')],
                    JDict [(''name'', JStr ''api''), (''owner'', JStr ''eve''),
                           (''state'', JStr ''creating'')]])]),
        calls = [[''podman'', ''--version''],
                 [''podman'', ''container'', ''exists'', ''web''],
                 [''podman'', ''inspect'', ''--format'', ''{{.State.Status}}'', ''web''],
                 [''podman'', ''container'', ''exists'', ''web''],
                 [''podman'', ''rm'', ''-f'', ''web''],
                 [''podman'', ''volume'', ''rm'', ''web-data'']]\<rparr>)"
    by (simp add: destroy_def lookup_owned_def get_container_def load_registry_def
          init_registry_def json_load_def json_dump_def cmd_defs demo_state_def demo_registry_def
          demo_env_def scripted_env_def check_podman_def run_command_def
          podman_container_state_def podman_container_exists_def podman_remove_container_def
          podman_remove_volume_def remove_container_def strip_def is_space_def)
  have h: "fst (get_container ''web'' (snd (destroy demo_env ''web'' True False demo_state))) = Inr None"
    unfolding first
    by (simp add: get_container_def load_registry_def init_registry_def json_load_def cmd_defs)
  show ?thesis
    using destroy_not_found[OF h, of demo_env True False]
    unfolding first by simp
qed

subsection \<open>Rotating the key\<close>

lemma find_container_first_match:
  "find_container pre name = Inr None \<Longrightarrow> map_of d ''name'' = Some (JStr name) \<Longrightarrow>
   find_container (pre @ JDict d # post) name = Inr (Some (JDict d))"
  by (induction pre) (auto split: sum.splits if_splits)

lemma get_container_found:
  assumes "registry_file s = Holds (JDict reg)"
    and "map_of reg ''containers'' = Some (JList (pre @ JDict d # post))"
    and "find_container pre name = Inr None"
    and "map_of d ''name'' = Some (JStr name)"
  shows "get_container name s = (Inr (Some (JDict d)), s)"
  using assms
  by (simp add: get_container_def load_registry_def init_registry_def json_load_def cmd_defs
        find_container_first_match)

lemma is_admin_effect:
  "is_admin E user s = (r, s') \<Longrightarrow>
   registry_file s' = registry_file s \<and> calls s' = calls s @ [[''groups'', user]] \<and> (\<exists>b. r = Inr b)"
  by (auto simp: is_admin_def run_command_def cmd_defs Let_def
      split: prod.splits sum.splits proc.splits if_splits)

lemma lookup_owned_found:
  assumes "get_container name s = (Inr (Some c), s)"
    and "lookup_owned E name s = (r, s')"
  shows "registry_file s' = registry_file s
       \<and> (r = Inr c \<or> (\<exists>e. r = Inl e))
       \<and> (calls s' = calls s \<or> calls s' = calls s @ [[''groups'', USER E]])
       \<and> (getitem c ''owner'' = Inr (JStr (USER E)) \<longrightarrow> r = Inr c \<and> s' = s)"
proof (cases "getitem c ''owner''")
  case (Inl e)
  have "lookup_owned E name s = (Inl e, s)"
    using assms(1) Inl by (simp add: lookup_owned_def cmd_defs)
  then have "r = Inl e" and "s' = s" using assms(2) by simp_all
  then show ?thesis using Inl by simp
next
  case (Inr owner)
  show ?thesis
  proof (cases "owner = JStr (USER E)")
    case True
    have "lookup_owned E name s = (Inr c, s)"
      using assms(1) Inr True by (simp add: lookup_owned_def cmd_defs)
    then have "r = Inr c" and "s' = s" using assms(2) by simp_all
    then show ?thesis by simp
  next
    case False
    obtain ra sa where adm: "is_admin E (USER E) s = (ra, sa)" by (cases "is_admin E (USER E) s")
    from is_admin_effect[OF adm] obtain b where
      eff: "registry_file sa = registry_file s" "calls sa = calls s @ [[''groups'', USER E]]" "ra = Inr b"
      by blast
    have "lookup_owned E name s =
            (if b then (Inr c, sa) else (Inl (DevboxPermissionError ''Permission denied''), sa))"
      using assms(1) Inr False adm eff(3) by (simp add: lookup_owned_def cmd_defs)
    then have "s' = sa" and "r = Inr c \<or> (\<exists>e. r = Inl e)"
      using assms(2) by (auto split: if_splits)
    then show ?thesis using eff Inr False by simp
  qed
qed

lemma dict_update_single: "dict_update d [(k, v)] = AList.update k v d"
  by (simp add: dict_update_def)

text \<open>
  C8. The registry holds \<open>pre @ JDict d # post\<close> with \<open>d\<close> the first record of the name.
  \<^item> If the state of \<open>d\<close> is not \<^verbatim>\<open>running\<close>, \<^verbatim>\<open>rotate-key\<close> fails, and the only
    program it may have started is the \<^verbatim>\<open>groups\<close> lookup of \<^verbatim>\<open>is_admin\<close> (when the
    caller is not the owner).
  \<^item> For the owner, that failure is the ValidationError "Container not running", in the very
    state the command started in.
  \<^item> Whatever exception ends the command (that of a failed re-authentication among them),
    the registry file is the one of the start.
  \<^item> On success the state was \<^verbatim>\<open>running\<close>, and the file differs from the one of the start
    in the key \<^verbatim>\<open>lastActivityAt\<close> of \<open>d\<close> alone.
\<close>

theorem rotate_key_registry:
  assumes fl: "registry_file s = Holds (JDict reg)"
    and recs: "map_of reg ''containers'' = Some (JList (pre @ JDict d # post))"
    and pre: "find_container pre name = Inr None"
    and nm: "map_of d ''name'' = Some (JStr name)"
  shows "(map_of d ''state'' \<noteq> Some (JStr ''running'') \<longrightarrow>
            (\<exists>e. fst (rotate_key E name s) = Inl e)
            \<and> (calls (snd (rotate_key E name s)) = calls s
               \<or> calls (snd (rotate_key E name s)) = calls s @ [[''groups'', USER E]]))
       \<and> (map_of d ''owner'' = Some (JStr (USER E)) \<and> (\<exists>st. map_of d ''state'' = Some st)
          \<and> map_of d ''state'' \<noteq> Some (JStr ''running'') \<longrightarrow>
            rotate_key E name s = (Inl (ValidationError ''Container not running''), s))
       \<and> (\<forall>e. fst (rotate_key E name s) = Inl e \<longrightarrow>
            registry_file (snd (rotate_key E name s)) = registry_file s)
       \<and> (fst (rotate_key E name s) = Inr () \<longrightarrow>
            map_of d ''state'' = Some (JStr ''running'')
            \<and> (\<exists>now. registry_file (snd (rotate_key E name s)) =
                   Holds (JDict (AList.update ''containers''
                     (JList (pre @ JDict (AList.update ''lastActivityAt'' (JStr now) d) # post))
                     reg))))"
proof -
  define F where "F = Holds (JDict reg)"
  define Q :: "error + unit \<Rightarrow> stored \<Rightarrow> bool" where
    "Q = (\<lambda>r F'. case r of
            Inl e \<Rightarrow> F' = F
          | Inr u \<Rightarrow> \<exists>now. F' = Holds (JDict (AList.update ''containers''
                     (JList (pre @ JDict (AList.update ''lastActivityAt'' (JStr now) d) # post))
                     reg)))"
  define tail :: "(unit, 'a) cmd" where
    "tail =
       bnd (check_podman E) (\<lambda>_.
       bnd (get_tailscale_authkey E (USER E)) (\<lambda>authkey.
       let tags = get_tailscale_tags (USER E) in
       bnd (try_except
              (bnd (run_command E [''podman'', ''exec'', name, ''tailscale'', ''logout''] False) (\<lambda>_.
               bnd (run_command E
                      [''podman'', ''exec'', name, ''tailscale'', ''up'',
                       ''--authkey='' @ authkey, ''--ssh'', ''--hostname='' @ name,
                       ''--advertise-tags='' @ tags] True) (\<lambda>_. ret ())))
              (\<lambda>e. case e of
                      CalledProcessError c \<Rightarrow> throw (PodmanError ''Failed to rotate auth key'')
                    | _ \<Rightarrow> throw e)) (\<lambda>_.
       bnd (get_timestamp E) (\<lambda>now.
       update_container name [(''lastActivityAt'', JStr now)]))))"
  have rk: "rotate_key E name =
       bnd (lookup_owned E name) (\<lambda>container.
       bnd (lift (getitem container ''state'')) (\<lambda>st.
       if st \<noteq> JStr ''running'' then throw (ValidationError ''Container not running'')
       else tail))"
    unfolding rotate_key_def tail_def by (rule refl)
  have QF: "\<And>e. Q (Inl e) F" by (simp add: Q_def)
  have upd: "file_post F Q
      (update_container name [(''lastActivityAt'', JStr now)] :: (unit, 'a) cmd)" for now
    unfolding file_post_def
  proof (intro allI impI)
    fix s0 :: "'a state"
    assume "registry_file s0 = F"
    then have f0: "registry_file s0 = Holds (JDict reg)" by (simp add: F_def)
    have "''name'' \<notin> set (map fst [(''lastActivityAt'', JStr now)])" by simp
    from update_container_at_first_match[OF f0 recs pre nm this]
    show "Q (fst (update_container name [(''lastActivityAt'', JStr now)] s0))
            (registry_file (snd (update_container name [(''lastActivityAt'', JStr now)] s0)))"
      by (auto simp: Q_def dict_update_single)
  qed
  have tail_post: "file_post F Q tail"
    unfolding tail_def Let_def
    by (intro file_post_bnd keeps QF upd)
  have gc: "get_container name s = (Inr (Some (JDict d)), s)"
    by (rule get_container_found[OF fl recs pre nm])
  obtain r1 s1 where lo: "lookup_owned E name s = (r1, s1)"
    by (cases "lookup_owned E name s")
  from lookup_owned_found[OF gc lo] have
    f1: "registry_file s1 = registry_file s"
    and r1: "r1 = Inr (JDict d) \<or> (\<exists>e. r1 = Inl e)"
    and c1: "calls s1 = calls s \<or> calls s1 = calls s @ [[''groups'', USER E]]"
    and own: "getitem (JDict d) ''owner'' = Inr (JStr (USER E)) \<longrightarrow> r1 = Inr (JDict d) \<and> s1 = s"
    by blast+
  have F1: "registry_file s1 = F" using f1 fl by (simp add: F_def)
  note tp = file_postD[OF tail_post F1]
  show ?thesis
  proof (cases r1)
    case (Inl e)
    then have run: "rotate_key E name s = (Inl e, s1)"
      using lo by (simp add: rk bnd_def)
    have "map_of d ''owner'' \<noteq> Some (JStr (USER E))" using own Inl by auto
    then show ?thesis using run f1 c1 by simp
  next
    case (Inr c)
    then have c: "c = JDict d" and r1': "r1 = Inr (JDict d)" using r1 by auto
    show ?thesis
    proof (cases "map_of d ''state''")
      case None
      then have run: "rotate_key E name s = (Inl (KeyError ''state''), s1)"
        using lo r1' by (simp add: rk cmd_defs)
      then show ?thesis using f1 c1 None by simp
    next
      case (Some st)
      show ?thesis
      proof (cases "st = JStr ''running''")
        case False
        then have run: "rotate_key E name s = (Inl (ValidationError ''Container not running''), s1)"
          using lo r1' Some by (simp add: rk cmd_defs)
        have "map_of d ''owner'' = Some (JStr (USER E)) \<longrightarrow> s1 = s" using own by simp
        then show ?thesis using run f1 c1 Some False by simp
      next
        case True
        then have run: "rotate_key E name s = tail s1"
          using lo r1' Some by (simp add: rk cmd_defs)
        show ?thesis using tp True Some f1 F1
          by (auto simp: run Q_def F_def split: sum.splits)
      qed
    qed
  qed
qed

theorem rotate_key_registry_witness:
  "fst (rotate_key reauth_failing_env ''web'' demo_state) =
     Inl (PodmanError ''Failed to rotate auth key'')
   \<and> registry_file (snd (rotate_key reauth_failing_env ''web'' demo_state)) =
     registry_file demo_state"
proof -
  have h1: "registry_file demo_state = Holds (JDict [(''version'', JInt 1),
            (''containers'',
             JList [JDict [(''name'', JStr ''web''), (''owner'', JStr ''ann''),
                           (''state'', JStr ''running'')],
                    JDict [(''name'', JStr ''api''), (''owner'', JStr ''bob''),
                           (''state'', JStr ''creating'')],
                    JDict [(''name'', JStr ''api''), (''owner'', JStr ''eve''),
                           (''state'', JStr ''creating'')]])])"
    by (simp add: demo_state_def demo_registry_def)
  have h2: "map_of [(''version'', JInt 1),
            (''containers'',
             JList [JDict [(''name'', JStr ''web''), (''owner'', JStr ''ann''),
                           (''state'', JStr ''running'')],
                    JDict [(''name'', JStr ''api''), (''owner'', JStr ''bob''),
                           (''state'', JStr ''creating'')],
                    JDict [(''name'', JStr ''api''), (''owner'', JStr ''eve''),
                           (''state'', JStr ''creating'')]])]
             ''containers'' =
        Some (JList ([]
                   @ JDict [(''name'', JStr ''web''), (''owner'', JStr ''ann''),
                            (''state'', JStr ''running'')]
                   # [JDict [(''name'', JStr ''api''), (''owner'', JStr ''bob''),
                             (''state'', JStr ''creating'')],
                      JDict [(''name'', JStr ''api''), (''owner'', JStr ''eve''),
                             (''state'', JStr ''creating'')]]))"
    by simp
  have h3: "find_container [] ''web'' = Inr None"
    by simp
  have h4: "map_of [(''name'', JStr ''web''), (''owner'', JStr ''ann''),
                    (''state'', JStr ''running'')] ''name'' = Some (JStr ''web'')"
    by simp
  have run: "fst (rotate_key reauth_failing_env ''web'' demo_state) =
      Inl (PodmanError ''Failed to rotate auth key'')"
    by (simp add: rotate_key_def lookup_owned_def get_container_def load_registry_def
          init_registry_def json_load_def cmd_defs demo_state_def demo_registry_def
          reauth_failing_env_def scripted_env_def check_podman_def run_command_def
          get_tailscale_authkey_def check_op_cli_def check_op_auth_def startswith_def
          get_tailscale_tags_def)
  from rotate_key_registry[OF h1 h2 h3 h4, of reauth_failing_env,
      THEN conjunct2, THEN conjunct2, THEN conjunct1, rule_format, OF run]
  show ?thesis using run by simp
qed

subsection \<open>What a command can raise\<close>

named_theorems raises_intros

lemma raises_ret [raises_intros]: "raises (ret a) P"
  by (simp add: raises_def ret_def)

lemma raises_throw [raises_intros]: "P e \<Longrightarrow> raises (throw e) P"
  by (simp add: raises_def throw_def)

lemma raises_lift [raises_intros]: "(\<And>e. r = Inl e \<Longrightarrow> P e) \<Longrightarrow> raises (lift r) P"
  by (simp add: raises_def lift_def)

lemma raises_bnd [raises_intros]:
  "raises m P \<Longrightarrow> (\<And>a. raises (f a) P) \<Longrightarrow> raises (bnd m f) P"
  unfolding raises_def bnd_def
  by (auto split: prod.splits sum.splits) (metis fst_conv)+

lemma raises_try [raises_intros]:
  "raises m P \<Longrightarrow> (\<And>e. P e \<Longrightarrow> raises (h e) P) \<Longrightarrow> raises (try_except m h) P"
  unfolding raises_def try_except_def
  by (auto split: prod.splits sum.splits) (metis fst_conv)+

lemma raises_if [raises_intros]: "raises a P \<Longrightarrow> raises b P \<Longrightarrow> raises (if c then a else b) P"
  by simp

lemma raises_found [raises_intros]:
  "raises b P \<Longrightarrow> (\<And>x. raises (f x) P) \<Longrightarrow> raises (case v of None \<Rightarrow> b | Some x \<Rightarrow> f x) P"
  by (cases v) simp_all

lemma raises_run_command [raises_intros]: "raises (run_command E cmd check) nv"
  by (auto simp: raises_def run_command_def Let_def split: prod.splits proc.splits if_splits)

lemma raises_get_timestamp [raises_intros]: "raises (get_timestamp E) P"
  by (simp add: raises_def get_timestamp_def split: prod.splits)

lemma raises_rethrow_fnf [raises_intros]:
  "nv e \<Longrightarrow> nv e1 \<Longrightarrow> raises (case e of FileNotFoundError \<Rightarrow> throw e1 | _ \<Rightarrow> throw e) nv"
  by (cases e) (simp_all add: raises_intros)

lemma raises_rethrow_cpe [raises_intros]:
  "nv e \<Longrightarrow> nv e1 \<Longrightarrow> raises (case e of CalledProcessError c \<Rightarrow> throw e1 | _ \<Rightarrow> throw e) nv"
  by (cases e) (simp_all add: raises_intros)

lemma raises_init_registry [raises_intros]: "raises init_registry P"
  by (simp add: raises_def init_registry_def split: stored.splits)

lemma load_error_nv [simp]: "nv (load_error d)"
  by (cases d) simp_all

lemma raises_json_load [raises_intros]: "raises json_load nv"
  by (auto simp: raises_def json_load_def split: stored.splits)

lemma raises_json_dump [raises_intros]: "raises (json_dump j) P"
  by (simp add: raises_def json_dump_def)

lemma getitem_nv: "getitem j k = Inl e \<Longrightarrow> nv e"
  by (cases j) (auto split: option.splits)

lemma iterate_nv: "iterate j = Inl e \<Longrightarrow> nv e"
  by (cases j) auto

lemma len_nv: "len j = Inl e \<Longrightarrow> nv e"
  by (cases j) auto

lemma py_append_nv: "py_append j x = Inl e \<Longrightarrow> nv e"
  by (cases j) auto

lemma setitem_nv: "setitem j k v = Inl e \<Longrightarrow> nv e"
  by (cases j) auto

lemma update_first_nv: "update_first xs name updates = Inl e \<Longrightarrow> nv e"
  by (induction xs) (auto split: sum.splits if_splits json.splits dest: getitem_nv)

lemma remove_named_nv: "remove_named xs name = Inl e \<Longrightarrow> nv e"
  by (induction xs) (auto split: sum.splits if_splits dest: getitem_nv)

lemma raises_check_podman [raises_intros]: "raises (check_podman E) nv"
  unfolding check_podman_def by (intro raises_intros) simp_all

lemma raises_check_op_cli [raises_intros]: "raises (check_op_cli E) nv"
  unfolding check_op_cli_def by (intro raises_intros) simp_all

lemma raises_check_op_auth [raises_intros]: "raises (check_op_auth E) nv"
  unfolding check_op_auth_def by (intro raises_intros) simp_all

lemma raises_get_tailscale_authkey [raises_intros]: "raises (get_tailscale_authkey E u) nv"
  unfolding get_tailscale_authkey_def Let_def by (intro raises_intros) simp_all

lemma raises_podman_volume_exists [raises_intros]: "raises (podman_volume_exists E n) nv"
  unfolding podman_volume_exists_def by (intro raises_intros)

lemma raises_podman_create_volume [raises_intros]: "raises (podman_create_volume E n) nv"
  unfolding podman_create_volume_def by (intro raises_intros)

lemma raises_podman_run_container [raises_intros]:
  "raises (podman_run_container E name volume cpu memory authkey tags ws) nv"
  unfolding podman_run_container_def by (intro raises_intros) simp_all

lemma raises_wait_for_tailscale [raises_intros]: "raises (wait_for_tailscale E name timeout) nv"
proof (induction timeout)
  case 0
  show ?case by (simp add: raises_intros)
next
  case (Suc timeout)
  show ?case
    by (simp only: wait_for_tailscale.simps) (intro raises_intros Suc)
qed

lemma raises_update_container [raises_intros]: "raises (update_container name updates) nv"
  unfolding update_container_def
  by (intro raises_intros) (auto dest: getitem_nv iterate_nv update_first_nv setitem_nv)

lemma raises_remove_container [raises_intros]: "raises (remove_container name) nv"
  unfolding remove_container_def
  by (intro raises_intros) (auto dest: getitem_nv iterate_nv remove_named_nv setitem_nv)

lemma raises_add_container [raises_intros]: "raises (add_container E name owner cpu memory ws) nv"
  unfolding add_container_def
  by (intro raises_intros) (auto dest: getitem_nv py_append_nv setitem_nv)

lemma raises_load_registry [raises_intros]: "raises load_registry nv"
  unfolding load_registry_def by (intro raises_intros)

lemma raises_count_all_containers [raises_intros]: "raises count_all_containers nv"
  unfolding count_all_containers_def
  by (intro raises_intros) (auto dest: getitem_nv len_nv)

lemma raises_create_launch [raises_intros]:
  "raises (create_launch E name cpu memory no_start ws authkey tags) nv"
  unfolding create_launch_def Let_def by (intro raises_intros)

lemma raisesD: "raises m P \<Longrightarrow> m s = (Inl e, s') \<Longrightarrow> P e"
  by (auto simp: raises_def dest: spec[of _ s])

subsection \<open>Creating a container\<close>

lemma raises_weaken: "raises m P \<Longrightarrow> (\<And>e. P e \<Longrightarrow> Q e) \<Longrightarrow> raises m Q"
  by (simp add: raises_def)

lemma container_exists_eq:
  "container_exists name s =
     (case fst (get_container name s) of Inl e \<Rightarrow> Inl e | Inr c \<Rightarrow> Inr (c \<noteq> None),
      s\<lparr>registry_file := init_file (registry_file s)\<rparr>)"
proof -
  obtain r where "get_container name s = (r, s\<lparr>registry_file := init_file (registry_file s)\<rparr>)"
    using get_container_state[of name s] by (cases "get_container name s") simp
  then show ?thesis
    by (cases r) (simp_all add: container_exists_def cmd_defs)
qed

lemma count_user_containers_state:
  "snd (count_user_containers u s) = s\<lparr>registry_file := init_file (registry_file s)\<rparr>"
  by (cases "registry_file s")
     (auto simp: count_user_containers_def load_registry_def init_registry_def json_load_def
         init_file_def cmd_defs split: sum.splits prod.splits)

lemma count_user_containers_init:
  "fst (count_user_containers u (s\<lparr>registry_file := init_file (registry_file s)\<rparr>)) =
   fst (count_user_containers u s)"
  by (cases "registry_file s")
     (auto simp: count_user_containers_def load_registry_def init_registry_def json_load_def
         init_file_def cmd_defs split: sum.splits prod.splits)

lemma bnd_InrE:
  assumes "bnd m f s = (Inr b, s2)"
  obtains a s1 where "m s = (Inr a, s1)" and "f a s1 = (Inr b, s2)"
  using assms by (auto simp: bnd_def split: prod.splits sum.splits)

lemma get_container_None_D:
  assumes "fst (get_container name s) = Inr None"
  obtains reg cs xs where "init_file (registry_file s) = Holds (JDict reg)"
    and "map_of reg ''containers'' = Some cs" and "iterate cs = Inr xs"
    and "find_container xs name = Inr None"
proof -
  from assms obtain j where j: "init_file (registry_file s) = Holds j"
    by (cases "registry_file s")
       (auto simp: get_container_def load_registry_def init_registry_def json_load_def
          init_file_def cmd_defs)
  then have gc: "fst (get_container name s) =
      (case getitem j ''containers'' of Inl e \<Rightarrow> Inl e
       | Inr cs \<Rightarrow> (case iterate cs of Inl e \<Rightarrow> Inl e | Inr xs \<Rightarrow> find_container xs name))"
    by (cases "registry_file s")
       (auto simp: get_container_def load_registry_def init_registry_def json_load_def
          init_file_def cmd_defs empty_registry_def split: sum.splits)
  with assms obtain cs xs where cs: "getitem j ''containers'' = Inr cs"
    and xs: "iterate cs = Inr xs" and f: "find_container xs name = Inr None"
    by (auto split: sum.splits)
  from cs obtain reg where "j = JDict reg" and "map_of reg ''containers'' = Some cs"
    by (cases j) (auto split: option.splits)
  with j xs f that show ?thesis by blast
qed

lemma count_all_containers_state:
  "snd (count_all_containers s) = s\<lparr>registry_file := init_file (registry_file s)\<rparr>"
  by (cases "registry_file s")
     (auto simp: count_all_containers_def load_registry_def init_registry_def json_load_def
         init_file_def cmd_defs split: sum.splits prod.splits)

lemma create_checks_Inr:
  assumes "create_checks E name cpu memory s = (Inr key, s1)"
  shows "fst (get_container name s) = Inr None
       \<and> registry_file s1 = init_file (registry_file s)"
proof -
  from assms obtain ex sa where ce: "container_exists name s = (Inr ex, sa)"
    and r1: "(if ex then throw (ValidationError (''Container already exists: '' @ name))
       else
       bnd (count_user_containers (USER E)) (\<lambda>user_count.
       if user_count \<ge> MAX_PER_USER E then throw (ValidationError ''Container limit reached'')
       else
         bnd count_all_containers (\<lambda>global_count.
         if global_count \<ge> MAX_GLOBAL E
           then throw (ValidationError ''Global container limit reached'')
         else
           bnd (check_podman E) (\<lambda>_.
           bnd (get_tailscale_authkey E (USER E)) (\<lambda>authkey.
           ret (authkey, get_tailscale_tags (USER E))))))) sa = (Inr key, s1)"
    unfolding create_checks_def
    by (auto elim!: bnd_InrE simp: lift_def)
  from ce obtain c where gc: "fst (get_container name s) = Inr c" and exc: "ex = (c \<noteq> None)"
    and sa: "sa = s\<lparr>registry_file := init_file (registry_file s)\<rparr>"
    by (auto simp: container_exists_eq split: sum.splits)
  from r1 have nex: "\<not> ex" by (auto simp: throw_def split: if_splits)
  with gc exc have fresh: "fst (get_container name s) = Inr None" by simp
  from r1 nex obtain n sb where cu: "count_user_containers (USER E) sa = (Inr n, sb)"
    and r2: "(if n \<ge> MAX_PER_USER E then throw (ValidationError ''Container limit reached'')
       else
         bnd count_all_containers (\<lambda>global_count.
         if global_count \<ge> MAX_GLOBAL E
           then throw (ValidationError ''Global container limit reached'')
         else
           bnd (check_podman E) (\<lambda>_.
           bnd (get_tailscale_authkey E (USER E)) (\<lambda>authkey.
           ret (authkey, get_tailscale_tags (USER E)))))) sb = (Inr key, s1)"
    by (auto elim!: bnd_InrE)
  from cu have sb: "registry_file sb = init_file (registry_file s)"
    using count_user_containers_state[of "USER E" sa] by (simp add: sa)
  from r2 obtain g sc where ca: "count_all_containers sb = (Inr g, sc)"
    and r3: "(bnd (check_podman E) (\<lambda>_.
           bnd (get_tailscale_authkey E (USER E)) (\<lambda>authkey.
           ret (authkey, get_tailscale_tags (USER E))))) sc = (Inr key, s1)"
    by (auto elim!: bnd_InrE simp: throw_def split: if_splits)
  have sc: "registry_file sc = init_file (registry_file s)"
    using ca sb count_all_containers_state[of sb] by simp
  have "keeps_file (bnd (check_podman E) (\<lambda>_.
           bnd (get_tailscale_authkey E (USER E)) (\<lambda>authkey.
           ret (authkey, get_tailscale_tags (USER E)))))"
    by (intro keeps)
  from keeps_fileD[OF this r3] sc fresh show ?thesis by simp
qed

lemma file_post_if:
  "file_post F Q a \<Longrightarrow> file_post F Q b \<Longrightarrow> file_post F Q (if c then a else b)"
  by simp

lemma file_post_found:
  "file_post F Q b \<Longrightarrow> (\<And>x. file_post F Q (f x)) \<Longrightarrow>
   file_post F Q (case v of None \<Rightarrow> b | Some x \<Rightarrow> f x)"
  by (cases v) simp_all

lemma update_container_fail_keeps:
  "file_post (Holds j) (\<lambda>r F'. case r of Inl e \<Rightarrow> F' = Holds j | Inr u \<Rightarrow> True)
     (update_container name updates)"
  by (auto simp: file_post_def update_container_def init_registry_def json_load_def
        json_dump_def cmd_defs split: sum.splits prod.splits)

lemma create_launch_fail_keeps:
  assumes "create_launch E name cpu memory no_start ws authkey tags s2 = (Inl e, s3)"
    and "registry_file s2 = Holds j"
  shows "registry_file s3 = Holds j"
proof -
  have "file_post (Holds j) (\<lambda>r F'. case r of Inl e \<Rightarrow> F' = Holds j | Inr u \<Rightarrow> True)
          (create_launch E name cpu memory no_start ws authkey tags)"
    unfolding create_launch_def Let_def
    by (intro file_post_bnd file_post_if file_post_found keeps update_container_fail_keeps)
       simp_all
  from file_postD[OF this assms(2)] assms(1) show ?thesis by simp
qed

lemma create_launch_no_start_Inr:
  assumes "create_launch E name cpu memory True ws authkey tags s2 = (Inr (), s3)"
  obtains sm where "registry_file sm = registry_file s2"
    and "update_container name [(''state'', JStr ''stopped'')] sm = (Inr (), s3)"
proof -
  from assms obtain vol sa sb where
    a: "podman_volume_exists E (name @ ''-data'') s2 = (Inr vol, sa)"
    and b: "(if \<not> vol then podman_create_volume E (name @ ''-data'') else ret ()) sa = (Inr (), sb)"
    and c: "update_container name [(''state'', JStr ''stopped'')] sb = (Inr (), s3)"
    unfolding create_launch_def Let_def
    by (auto elim!: bnd_InrE)
  have "registry_file sa = registry_file s2"
    by (rule keeps_fileD[OF keeps_podman_volume_exists a])
  moreover have "keeps_file (if \<not> vol then podman_create_volume E (name @ ''-data'') else ret ())"
    by (intro keeps)
  then have "registry_file sb = registry_file sa"
    using b by (rule keeps_fileD)
  ultimately show ?thesis using c that by simp
qed

lemma add_container_Inr:
  assumes "add_container E name owner cpu memory ws s1 = (Inr (), s2)"
    and "registry_file s1 = Holds (JDict reg)"
    and "map_of reg ''containers'' = Some cs"
  obtains xs t where "cs = JList xs"
    and "registry_file s2 =
           Holds (JDict (AList.update ''containers''
                    (JList (xs @ [new_record name owner cpu memory ws t])) reg))"
proof (cases cs)
  case (JList xs)
  obtain t w' where t: "utc_now E (world s1) = (t, w')" by (cases "utc_now E (world s1)")
  have "registry_file s2 =
           Holds (JDict (AList.update ''containers''
                    (JList (xs @ [new_record name owner cpu memory ws t])) reg))"
    using assms JList t
    by (auto simp: add_container_def init_registry_def json_load_def json_dump_def
          get_timestamp_def cmd_defs)
  with JList that show ?thesis by blast
qed (use assms in \<open>auto simp: add_container_def init_registry_def json_load_def json_dump_def
          get_timestamp_def cmd_defs split: prod.splits\<close>)

lemma remove_named_fresh:
  "find_container pre name = Inr None \<Longrightarrow> map_of d ''name'' = Some (JStr name) \<Longrightarrow>
   remove_named (pre @ [JDict d]) name = Inr pre"
  by (induction pre) (auto split: sum.splits if_splits)

lemma filter_fresh:
  "find_container pre name = Inr None \<Longrightarrow>
   filter (\<lambda>c. getitem c ''name'' = Inr (JStr name)) pre = []"
  by (induction pre) (auto split: sum.splits if_splits)

lemma rollback_never_returns:
  "bnd (remove_container name) (\<lambda>_. throw e) s \<noteq> (Inr a, s')"
  by (auto simp: bnd_def throw_def split: prod.splits sum.splits)

lemma created_registry:
  assumes checks: "create_checks E name cpu memory s = (Inr key, s1)"
    and add: "add_container E name (USER E) cpu memory ws s1 = (Inr (), s2)"
  obtains reg xs t where "init_file (registry_file s) = Holds (JDict reg)"
    and "map_of reg ''containers'' = Some (JList xs)"
    and "find_container xs name = Inr None"
    and "registry_file s1 = Holds (JDict reg)"
    and "registry_file s2 =
           Holds (JDict (AList.update ''containers''
                    (JList (xs @ [new_record name (USER E) cpu memory ws t])) reg))"
proof -
  from create_checks_Inr[OF checks] have fresh: "fst (get_container name s) = Inr None"
    and f1: "registry_file s1 = init_file (registry_file s)" by simp_all
  from get_container_None_D[OF fresh] obtain reg cs xs0 where
    reg: "init_file (registry_file s) = Holds (JDict reg)"
    and cs: "map_of reg ''containers'' = Some cs"
    and it: "iterate cs = Inr xs0"
    and none: "find_container xs0 name = Inr None" by blast
  from f1 reg have f1': "registry_file s1 = Holds (JDict reg)" by simp
  from add_container_Inr[OF add f1' cs] obtain xs t where
    l: "cs = JList xs"
    and f2: "registry_file s2 =
           Holds (JDict (AList.update ''containers''
                    (JList (xs @ [new_record name (USER E) cpu memory ws t])) reg))" by blast
  from l it have "xs0 = xs" by simp
  with reg cs l none f1' f2 that show ?thesis by blast
qed

lemmas eval_defs =
  cmd_defs Let_def scripted_env_def demo_env_def demo_state_def demo_registry_def
  validate_container_name_def validate_cpu_def validate_memory_def NAME_PATTERN_def
  MEMORY_PATTERN_def in_class_def startswith_def
  init_registry_def json_load_def json_dump_def load_registry_def get_container_def
  container_exists_def count_user_containers_def count_all_containers_def
  add_container_def update_container_def remove_container_def new_record_def dict_update_def
  get_timestamp_def run_command_def check_podman_def check_op_cli_def check_op_auth_def
  get_tailscale_authkey_def get_tailscale_tags_def podman_volume_exists_def
  podman_create_volume_def podman_run_container_def strip_def is_space_def
  create_checks_def create_launch_def create_def

text \<open>
  C5. The caller owns \<open>n\<close> records (what \<^verbatim>\<open>count_user_containers\<close> returns).
  \<^item> At the limit, \<open>n \<ge> MAX_PER_USER\<close>, every \<^verbatim>\<open>create\<close> fails, and it ends in the state
    it started in, a missing registry file at most having become the empty registry: no
    program was started and no record was written.
  \<^item> If moreover the name, the cpu count and the memory are valid and no record has the
    name, the failure is the ValidationError "Container limit reached", the error the code
    has for the owner's quota.
  \<^item> For such a request below the limit, so also at \<open>MAX_PER_USER - 1\<close>, whatever ends
    \<^verbatim>\<open>create\<close> is not that error: the owner's quota does not stand in the way of one more
    container.
\<close>

theorem create_owner_quota:
  assumes cnt: "fst (count_user_containers (USER E) s) = Inr n"
  shows "(n \<ge> MAX_PER_USER E \<longrightarrow>
            (\<exists>e. fst (create E name cpu memory no_start with_syncthing s) = Inl e)
            \<and> (snd (create E name cpu memory no_start with_syncthing s) = s
               \<or> snd (create E name cpu memory no_start with_syncthing s) =
                   s\<lparr>registry_file := init_file (registry_file s)\<rparr>))
       \<and> (validate_container_name name = Inr () \<and> validate_cpu cpu = Inr ()
          \<and> validate_memory memory = Inr () \<and> fst (get_container name s) = Inr None \<longrightarrow>
            (n \<ge> MAX_PER_USER E \<longrightarrow>
               create E name cpu memory no_start with_syncthing s =
                 (Inl (ValidationError ''Container limit reached''),
                  s\<lparr>registry_file := init_file (registry_file s)\<rparr>))
            \<and> (n < MAX_PER_USER E \<longrightarrow>
               fst (create E name cpu memory no_start with_syncthing s) \<noteq>
                 Inl (ValidationError ''Container limit reached'')))"
proof -
  define si where "si = s\<lparr>registry_file := init_file (registry_file s)\<rparr>"
  define P :: "error \<Rightarrow> bool" where "P = (\<lambda>e. e \<noteq> ValidationError ''Container limit reached'')"
  define admit :: "(string \<times> string, 'a) cmd" where
    "admit =
         bnd count_all_containers (\<lambda>global_count.
         if global_count \<ge> MAX_GLOBAL E
           then throw (ValidationError ''Global container limit reached'')
         else
           bnd (check_podman E) (\<lambda>_.
           bnd (get_tailscale_authkey E (USER E)) (\<lambda>authkey.
           ret (authkey, get_tailscale_tags (USER E)))))"
  define rest :: "string \<times> string \<Rightarrow> (unit, 'a) cmd" where
    "rest = (\<lambda>key.
     bnd (add_container E name (USER E) cpu memory with_syncthing) (\<lambda>_.
     try_except
       (create_launch E name cpu memory no_start with_syncthing (fst key) (snd key))
       (\<lambda>e. bnd (remove_container name) (\<lambda>_. throw e))))"
  have cu: "count_user_containers (USER E) si = (Inr n, si)"
    using cnt count_user_containers_init[of "USER E" s] count_user_containers_state[of "USER E" si]
    by (simp add: si_def prod_eq_iff)
  have cr: "create E name cpu memory no_start with_syncthing =
              bnd (create_checks E name cpu memory) rest"
    unfolding create_def rest_def by (rule refl)
  have fails: "create E name cpu memory no_start with_syncthing s = (Inl e, s')"
    if "create_checks E name cpu memory s = (Inl e, s')" for e s'
    using that by (simp add: cr bnd_def)
  have at_limit: "\<exists>e s'. create_checks E name cpu memory s = (Inl e, s') \<and> (s' = s \<or> s' = si)"
    if lim: "n \<ge> MAX_PER_USER E"
  proof (cases "validate_container_name name")
    case (Inl e)
    then show ?thesis by (simp add: create_checks_def cmd_defs)
  next
    case vn: (Inr u)
    show ?thesis
    proof (cases "validate_cpu cpu")
      case (Inl e)
      then show ?thesis using vn by (simp add: create_checks_def cmd_defs)
    next
      case vc: (Inr u1)
      show ?thesis
      proof (cases "validate_memory memory")
        case (Inl e)
        then show ?thesis using vn vc by (simp add: create_checks_def cmd_defs)
      next
        case vm: (Inr u2)
        show ?thesis
        proof (cases "fst (get_container name s)")
          case (Inl e)
          then have "container_exists name s = (Inl e, si)"
            by (simp add: container_exists_eq si_def)
          then show ?thesis using vn vc vm by (simp add: create_checks_def cmd_defs)
        next
          case (Inr found)
          then have "container_exists name s = (Inr (found \<noteq> None), si)"
            by (simp add: container_exists_eq si_def)
          then show ?thesis using vn vc vm cu lim
            by (cases found) (simp_all add: create_checks_def cmd_defs)
        qed
      qed
    qed
  qed
  have general: "(\<exists>e. fst (create E name cpu memory no_start with_syncthing s) = Inl e)
            \<and> (snd (create E name cpu memory no_start with_syncthing s) = s
               \<or> snd (create E name cpu memory no_start with_syncthing s) = si)"
    if lim: "n \<ge> MAX_PER_USER E"
  proof -
    from at_limit[OF lim] obtain e s' where
      "create_checks E name cpu memory s = (Inl e, s')" and "s' = s \<or> s' = si" by blast
    then show ?thesis using fails[of e s'] by auto
  qed
  have valid: "(n \<ge> MAX_PER_USER E \<longrightarrow>
               create E name cpu memory no_start with_syncthing s =
                 (Inl (ValidationError ''Container limit reached''), si))
            \<and> (n < MAX_PER_USER E \<longrightarrow>
               fst (create E name cpu memory no_start with_syncthing s) \<noteq>
                 Inl (ValidationError ''Container limit reached''))"
    if vn: "validate_container_name name = Inr ()" and vc: "validate_cpu cpu = Inr ()"
      and vm: "validate_memory memory = Inr ()" and fresh: "fst (get_container name s) = Inr None"
  proof -
    have ex: "container_exists name s = (Inr False, si)"
      using fresh by (simp add: container_exists_eq si_def)
    have checks: "create_checks E name cpu memory s =
        (if n \<ge> MAX_PER_USER E then (Inl (ValidationError ''Container limit reached''), si)
         else admit si)"
      unfolding create_checks_def admit_def
      using vn vc vm ex cu by (simp add: cmd_defs)
    have over: "n \<ge> MAX_PER_USER E \<Longrightarrow>
        create E name cpu memory no_start with_syncthing s =
          (Inl (ValidationError ''Container limit reached''), si)"
      by (simp add: cr checks bnd_def)
    have r_rest: "raises (rest key) nv" for key
      unfolding rest_def by (intro raises_intros) simp_all
    have inner: "raises (bnd (check_podman E) (\<lambda>_. bnd (get_tailscale_authkey E (USER E))
               (\<lambda>authkey. ret (authkey, get_tailscale_tags (USER E))))) P"
      by (rule raises_weaken[where P = nv]) (intro raises_intros, auto simp: P_def)
    have r_admit: "raises admit P"
      unfolding admit_def
    proof (rule raises_bnd)
      show "raises count_all_containers P"
        by (rule raises_weaken[OF raises_count_all_containers]) (auto simp: P_def)
    next
      fix g :: int
      have "P (ValidationError ''Global container limit reached'')"
        by (simp add: P_def)
      then show "raises (if g \<ge> MAX_GLOBAL E
             then throw (ValidationError ''Global container limit reached'')
           else
             bnd (check_podman E) (\<lambda>_.
             bnd (get_tailscale_authkey E (USER E)) (\<lambda>authkey.
             ret (authkey, get_tailscale_tags (USER E))))) P"
        using inner by (simp add: raises_throw)
    qed
    have r_all: "raises (bnd admit rest) P"
      by (intro raises_bnd r_admit raises_weaken[OF r_rest]) (auto simp: P_def)
    have under: "n < MAX_PER_USER E \<Longrightarrow>
        fst (create E name cpu memory no_start with_syncthing s) \<noteq>
          Inl (ValidationError ''Container limit reached'')"
    proof -
      assume "n < MAX_PER_USER E"
      then have "create E name cpu memory no_start with_syncthing s = bnd admit rest si"
        by (simp add: cr checks bnd_def)
      then show ?thesis using r_all by (auto simp: raises_def P_def)
    qed
    show ?thesis using over under by simp
  qed
  show ?thesis using general valid unfolding si_def by blast
qed

theorem create_owner_quota_witness:
  "fst (create demo_env ''cache'' 2 ''4G'' True False demo_state) = Inr ()
   \<and> create demo_env ''queue'' 2 ''4G'' True False
        (snd (create demo_env ''cache'' 2 ''4G'' True False demo_state)) =
       (Inl (ValidationError ''Container limit reached''),
        snd (create demo_env ''cache'' 2 ''4G'' True False demo_state))"
proof -
  define s1 where "s1 = snd (create demo_env ''cache'' 2 ''4G'' True False demo_state)"
  have first: "create demo_env ''cache'' 2 ''4G'' True False demo_state =
      (Inr (),
       \<lparr>world = (),
        registry_file = Holds (JDict [(''version'', JInt 1),
           (''containers'',
            JList [JDict [(''name'', JStr ''web''), (''owner'', JStr ''ann''),
                          (''state'', JStr ''running'')],
                   JDict [(''name'', JStr ''api''), (''owner'', JStr ''bob''),
                          (''state'', JStr ''creating'')],
                   JDict [(''name'', JStr ''api''), (''owner'', JStr ''eve''),
                          (''state'', JStr ''creating'')],
                   JDict [(''name'', JStr ''cache''), (''owner'', JStr ''ann''),
                          (''state'', JStr ''stopped''),
                          (''createdAt'', JStr ''2025-01-01T00:00:00Z''),
                          (''lastActivityAt'', JStr ''2025-01-01T00:00:00Z''),
                          (''cpuLimit'', JInt 2), (''memoryLimit'', JStr ''4G''),
                          (''volumeName'', JStr ''cache-data''),
                          (''tailscaleHostname'', JStr ''cache''),
                          (''tailscaleIP'', JNull),
                          (''withSyncthing'', JBool False)]])]),
        calls = [[''podman'', ''--version''], [''op'', ''--version''],
                 [''op'', ''vault'', ''list'', ''--format=json''],
                 [''op'', ''read'', ''op://DevBox/ann-tailscale-authkey/password'',
                  ''--no-newline''],
                 [''podman'', ''volume'', ''exists'', ''cache-data'']]\<rparr>)"
    by (simp add: eval_defs)
  have vn: "validate_container_name ''queue'' = Inr ()" by (simp add: eval_defs)
  have vc: "validate_cpu 2 = Inr ()" by (simp add: eval_defs)
  have vm: "validate_memory ''4G'' = Inr ()" by (simp add: eval_defs)
  have fresh: "fst (get_container ''queue'' s1) = Inr None"
    unfolding s1_def first by (simp add: eval_defs)
  have cnt: "fst (count_user_containers (USER demo_env) s1) = Inr 2"
    unfolding s1_def first by (simp add: eval_defs)
  have lim: "2 \<ge> MAX_PER_USER demo_env" by (simp add: eval_defs)
  have same: "s1\<lparr>registry_file := init_file (registry_file s1)\<rparr> = s1"
    unfolding s1_def first by (simp add: init_file_def)
  from create_owner_quota[OF cnt, of "''queue''" 2 "''4G''" True False, THEN conjunct2, rule_format,
      OF conjI[OF vn conjI[OF vc conjI[OF vm fresh]]], THEN conjunct1, rule_format, OF lim]
  show ?thesis
    unfolding same unfolding s1_def by (simp add: first)
qed

text \<open>
  C6. If \<^verbatim>\<open>create\<close> with \<^verbatim>\<open>--no-start\<close> returns normally, then the registry it found
  (after \<^verbatim>\<open>init_registry\<close>) held records \<open>xs\<close>, none of them with the name, and the
  registry it leaves holds \<open>xs\<close> followed by one new record: state \<^verbatim>\<open>stopped\<close>, the
  caller as owner, the cpu and memory limits given, the volume \<^verbatim>\<open>{name}-data\<close>, the
  hostname equal to the name, no Tailscale address, and one timestamp in both time fields.
  It is the only record of that name.
\<close>

theorem create_no_start:
  assumes "create E name cpu memory True with_syncthing s = (Inr (), s')"
  shows "\<exists>reg xs t entry.
           init_file (registry_file s) = Holds (JDict reg)
         \<and> map_of reg ''containers'' = Some (JList xs)
         \<and> find_container xs name = Inr None
         \<and> entry = JDict [(''name'', JStr name),
                            (''owner'', JStr (USER E)),
                            (''state'', JStr ''stopped''),
                            (''createdAt'', JStr t),
                            (''lastActivityAt'', JStr t),
                            (''cpuLimit'', JInt cpu),
                            (''memoryLimit'', JStr memory),
                            (''volumeName'', JStr (name @ ''-data'')),
                            (''tailscaleHostname'', JStr name),
                            (''tailscaleIP'', JNull),
                            (''withSyncthing'', JBool with_syncthing)]
         \<and> registry_file s' =
             Holds (JDict (AList.update ''containers'' (JList (xs @ [entry])) reg))
         \<and> filter (\<lambda>c. getitem c ''name'' = Inr (JStr name)) (xs @ [entry]) = [entry]"
proof -
  from assms obtain key s1 s2 where
    checks: "create_checks E name cpu memory s = (Inr key, s1)"
    and add: "add_container E name (USER E) cpu memory with_syncthing s1 = (Inr (), s2)"
    and tr: "try_except
       (create_launch E name cpu memory True with_syncthing (fst key) (snd key))
       (\<lambda>e. bnd (remove_container name) (\<lambda>_. throw e)) s2 = (Inr (), s')"
    unfolding create_def by (auto elim!: bnd_InrE)
  from tr have launch:
    "create_launch E name cpu memory True with_syncthing (fst key) (snd key) s2 = (Inr (), s')"
    by (auto simp: try_except_def rollback_never_returns split: prod.splits sum.splits)
  from created_registry[OF checks add] obtain reg xs t where
    reg: "init_file (registry_file s) = Holds (JDict reg)"
    and cs: "map_of reg ''containers'' = Some (JList xs)"
    and none: "find_container xs name = Inr None"
    and f2: "registry_file s2 =
           Holds (JDict (AList.update ''containers''
                    (JList (xs @ [new_record name (USER E) cpu memory with_syncthing t])) reg))"
    by blast
  define d where "d = [(''name'', JStr name),
                            (''owner'', JStr (USER E)),
                            (''state'', JStr ''creating''),
                            (''createdAt'', JStr t),
                            (''lastActivityAt'', JStr t),
                            (''cpuLimit'', JInt cpu),
                            (''memoryLimit'', JStr memory),
                            (''volumeName'', JStr (name @ ''-data'')),
                            (''tailscaleHostname'', JStr name),
                            (''tailscaleIP'', JNull),
                            (''withSyncthing'', JBool with_syncthing)]"
  define entry where "entry = JDict (dict_update d [(''state'', JStr ''stopped'')])"
  have nr: "new_record name (USER E) cpu memory with_syncthing t = JDict d"
    by (simp add: new_record_def d_def)
  from create_launch_no_start_Inr[OF launch] obtain sm where
    fm: "registry_file sm = registry_file s2"
    and up: "update_container name [(''state'', JStr ''stopped'')] sm = (Inr (), s')" by blast
  have fm': "registry_file sm =
      Holds (JDict (AList.update ''containers'' (JList (xs @ [JDict d])) reg))"
    using fm f2 nr by simp
  have m2: "map_of (AList.update ''containers'' (JList (xs @ [JDict d])) reg) ''containers'' =
      Some (JList (xs @ JDict d # []))"
    by (simp add: update_conv')
  have dn: "map_of d ''name'' = Some (JStr name)" by (simp add: d_def)
  have "''name'' \<notin> set (map fst [(''state'', JStr ''stopped'')])" by simp
  from update_container_at_first_match[OF fm' m2 none dn this] up
  have fs: "registry_file s' =
      Holds (JDict (AList.update ''containers'' (JList (xs @ [entry])) reg))"
    by (auto simp: entry_def)
  have rec: "entry = JDict [(''name'', JStr name),
                            (''owner'', JStr (USER E)),
                            (''state'', JStr ''stopped''),
                            (''createdAt'', JStr t),
                            (''lastActivityAt'', JStr t),
                            (''cpuLimit'', JInt cpu),
                            (''memoryLimit'', JStr memory),
                            (''volumeName'', JStr (name @ ''-data'')),
                            (''tailscaleHostname'', JStr name),
                            (''tailscaleIP'', JNull),
                            (''withSyncthing'', JBool with_syncthing)]"
    by (simp add: entry_def d_def dict_update_def)
  have flt: "filter (\<lambda>c. getitem c ''name'' = Inr (JStr name)) (xs @ [entry]) = [entry]"
    using filter_fresh[OF none] by (simp add: rec)
  show ?thesis
    using reg cs none rec fs flt by blast
qed

theorem create_no_start_witness:
  "fst (create demo_env ''demo-env'' 2 ''4G'' True False fresh_state) = Inr ()
   \<and> (\<exists>t. registry_file (snd (create demo_env ''demo-env'' 2 ''4G'' True False fresh_state)) =
         Holds (JDict [(''version'', JInt 1),
           (''containers'',
            JList [JDict [(''name'', JStr ''demo-env''), (''owner'', JStr ''ann''),
                          (''state'', JStr ''stopped''),
                          (''createdAt'', JStr t),
                          (''lastActivityAt'', JStr t),
                          (''cpuLimit'', JInt 2), (''memoryLimit'', JStr ''4G''),
                          (''volumeName'', JStr ''demo-env-data''),
                          (''tailscaleHostname'', JStr ''demo-env''),
                          (''tailscaleIP'', JNull),
                          (''withSyncthing'', JBool False)]])]))"
proof -
  have ok: "fst (create demo_env ''demo-env'' 2 ''4G'' True False fresh_state) = Inr ()"
    by (simp add: eval_defs fresh_state_def empty_registry_def)
  then have h: "create demo_env ''demo-env'' 2 ''4G'' True False fresh_state =
      (Inr (), snd (create demo_env ''demo-env'' 2 ''4G'' True False fresh_state))"
    by (simp add: prod_eq_iff)
  have u: "USER demo_env = ''ann''" by (simp add: eval_defs)
  from create_no_start[OF h] ok show ?thesis
    by (auto simp: fresh_state_def init_file_def empty_registry_def u)
qed

text \<open>
  C1. The checks of \<^verbatim>\<open>create\<close> have passed, \<^verbatim>\<open>add_container\<close> has written the record
  (the registry read in \<open>s2\<close> finds it), and the inner \<^verbatim>\<open>try\<close> then raises \<open>e\<close>, whatever
  step raised it. Then \<^verbatim>\<open>create\<close> ends with that same \<open>e\<close>, the registry file is again
  what it was before the record was written, and no record has the name.
\<close>

theorem create_rollback:
  assumes checks: "create_checks E name cpu memory s = (Inr key, s1)"
    and add: "add_container E name (USER E) cpu memory with_syncthing s1 = (Inr (), s2)"
    and launch: "create_launch E name cpu memory no_start with_syncthing (fst key) (snd key) s2 =
                   (Inl e, s3)"
  shows "(\<exists>t. fst (get_container name s2) =
               Inr (Some (new_record name (USER E) cpu memory with_syncthing t)))
       \<and> create E name cpu memory no_start with_syncthing s =
           (Inl e, s3\<lparr>registry_file := init_file (registry_file s)\<rparr>)
       \<and> fst (get_container name (s3\<lparr>registry_file := init_file (registry_file s)\<rparr>)) = Inr None"
proof -
  from created_registry[OF checks add] obtain reg xs t where
    reg: "init_file (registry_file s) = Holds (JDict reg)"
    and cs: "map_of reg ''containers'' = Some (JList xs)"
    and none: "find_container xs name = Inr None"
    and f2: "registry_file s2 =
           Holds (JDict (AList.update ''containers''
                    (JList (xs @ [new_record name (USER E) cpu memory with_syncthing t])) reg))"
    by blast
  obtain d where nr: "new_record name (USER E) cpu memory with_syncthing t = JDict d"
    and dn: "map_of d ''name'' = Some (JStr name)"
    by (simp add: new_record_def)
  have f2': "registry_file s2 =
      Holds (JDict (AList.update ''containers'' (JList (xs @ [JDict d])) reg))"
    using f2 nr by simp
  have m2: "map_of (AList.update ''containers'' (JList (xs @ [JDict d])) reg) ''containers'' =
      Some (JList (xs @ JDict d # []))"
    by (simp add: update_conv')
  have inserted: "fst (get_container name s2) = Inr (Some (JDict d))"
    using get_container_found[OF f2' m2 none dn] by simp
  have f3: "registry_file s3 =
      Holds (JDict (AList.update ''containers'' (JList (xs @ [JDict d])) reg))"
    by (rule create_launch_fail_keeps[OF launch f2'])
  have undone: "AList.update ''containers'' (JList xs)
                (AList.update ''containers'' (JList (xs @ [JDict d])) reg) = reg"
    using cs by (simp add: update_triv)
  have rm: "remove_container name s3 = (Inr (), s3\<lparr>registry_file := Holds (JDict reg)\<rparr>)"
    using f3 none dn
    by (simp add: remove_container_def init_registry_def json_load_def json_dump_def cmd_defs
          update_conv' remove_named_fresh undone update_triv[OF cs])
  have run: "create E name cpu memory no_start with_syncthing s =
      (Inl e, s3\<lparr>registry_file := init_file (registry_file s)\<rparr>)"
    using checks add launch rm reg
    by (simp add: create_def bnd_def try_except_def throw_def)
  have after: "fst (get_container name (s3\<lparr>registry_file := init_file (registry_file s)\<rparr>)) =
      Inr None"
    using reg cs none
    by (simp add: get_container_def load_registry_def init_registry_def json_load_def cmd_defs)
  have "\<exists>t. fst (get_container name s2) =
               Inr (Some (new_record name (USER E) cpu memory with_syncthing t))"
    using inserted nr[symmetric] by (intro exI[of _ t]) simp
  then show ?thesis using run after by simp
qed

theorem create_rollback_witness:
  "fst (create launch_failing_env ''cache'' 2 ''4G'' False False demo_state) =
     Inl (PodmanError ''Failed to create container: cache'')
   \<and> fst (get_container ''cache''
           (snd (create launch_failing_env ''cache'' 2 ''4G'' False False demo_state))) = Inr None"
proof -
  define E where "E = launch_failing_env"
  define key where "key = (''tskey-demo'', ''tag:devcontainer,tag:ann-container'')"
  define s1 where "s1 = snd (create_checks E ''cache'' 2 ''4G'' demo_state)"
  define s2 where "s2 = snd (add_container E ''cache'' (USER E) 2 ''4G'' False s1)"
  define s3 where "s3 = snd (create_launch E ''cache'' 2 ''4G'' False False (fst key) (snd key) s2)"
  have e1: "create_checks E ''cache'' 2 ''4G'' demo_state =
      (Inr key, demo_state\<lparr>calls := [[''podman'', ''--version''], [''op'', ''--version''],
                 [''op'', ''vault'', ''list'', ''--format=json''],
                 [''op'', ''read'', ''op://DevBox/ann-tailscale-authkey/password'',
                  ''--no-newline'']]\<rparr>)"
    by (simp add: E_def key_def launch_failing_env_def eval_defs)
  then have h1: "create_checks E ''cache'' 2 ''4G'' demo_state = (Inr key, s1)"
    by (simp add: s1_def)
  have e2: "fst (add_container E ''cache'' (USER E) 2 ''4G'' False s1) = Inr ()"
    unfolding s1_def e1 by (simp add: E_def launch_failing_env_def eval_defs)
  then have h2: "add_container E ''cache'' (USER E) 2 ''4G'' False s1 = (Inr (), s2)"
    by (simp add: s2_def prod_eq_iff)
  have e3: "fst (create_launch E ''cache'' 2 ''4G'' False False (fst key) (snd key) s2) =
      Inl (PodmanError ''Failed to create container: cache'')"
    unfolding s2_def s1_def e1 by (simp add: E_def key_def launch_failing_env_def eval_defs)
  then have h3: "create_launch E ''cache'' 2 ''4G'' False False (fst key) (snd key) s2 =
      (Inl (PodmanError ''Failed to create container: cache''), s3)"
    by (simp add: s3_def prod_eq_iff)
  from create_rollback[OF h1 h2 h3, THEN conjunct2]
  show ?thesis by (simp add: E_def)
qed

subsection \<open>Several invocations at once\<close>

text \<open>The steps, taken by one process alone, are \<^verbatim>\<open>add_container\<close> as the commands use it:
  eleven steps are enough on every path, and a process that has returned stays where it
  is.\<close>

lemma bnd_assoc: "bnd (bnd m f) g = bnd m (\<lambda>x. bnd (f x) g)"
  by (auto simp: bnd_def fun_eq_iff split: prod.splits sum.splits)

lemma add_container_appended:
  "add_container E name owner cpu memory with_syncthing =
     bnd init_registry (\<lambda>_. bnd json_load (\<lambda>registry.
       bnd (appended E (name, owner, cpu, memory, with_syncthing) registry) json_dump))"
  by (simp add: add_container_def appended_def bnd_assoc)

lemma appended_file: "registry_file (snd (appended E c j s)) = registry_file s"
  by (cases c) (auto simp: appended_def get_timestamp_def cmd_defs split: prod.splits sum.splits)

lemma solo_from_open:
  assumes i: "i < length (procs sys)" and at: "procs sys ! i = (c, AtOpen)"
    and free: "lock sys = None" and fl: "registry_file (shared sys) \<noteq> Absent"
  shows "run_schedule E [i, i, i, i, i, i, i] sys =
           sys\<lparr>shared := snd (bnd json_load (\<lambda>registry. bnd (appended E c registry) json_dump) (shared sys)),
               procs := (procs sys)[i := (c,
                          Returned (fst (bnd json_load (\<lambda>registry. bnd (appended E c registry) json_dump) (shared sys))))]\<rparr>"
proof (cases "registry_file (shared sys)")
  case Absent
  with fl show ?thesis by simp
next
  case (Damaged d)
  then show ?thesis using i at free
    by (simp add: step_def json_load_def cmd_defs Let_def)
next
  case (Holds j)
  obtain r s' where ap: "appended E c j (shared sys) = (r, s')" by (cases "appended E c j (shared sys)")
  have fs': "registry_file s' = Holds j" using appended_file[of E c j "shared sys"] ap Holds by simp
  show ?thesis
  proof (cases r)
    case (Inl e)
    then show ?thesis using i at free Holds ap
      by (simp add: step_def json_load_def cmd_defs Let_def)
  next
    case (Inr registry')
    then show ?thesis using i at free Holds ap fs'
      by (simp add: step_def json_load_def json_dump_def cmd_defs Let_def)
  qed
qed

lemma run_schedule_append:
  "run_schedule E (a @ b) sys = run_schedule E b (run_schedule E a sys)"
  by (induction a arbitrary: sys) simp_all

lemma step_Returned:
  "i < length (procs sys) \<Longrightarrow> procs sys ! i = (c, Returned r) \<Longrightarrow> step E i sys = sys"
  using list_update_id[of "procs sys" i] by (simp add: step_def)

lemma solo_add_container:
  assumes i: "i < length (procs sys)"
    and at: "procs sys ! i = ((name, owner, cpu, memory, with_syncthing), AtCreate)"
    and free: "lock sys = None"
  shows "run_schedule E (replicate 11 i) sys =
           sys\<lparr>shared := snd (add_container E name owner cpu memory with_syncthing (shared sys)),
               procs := (procs sys)[i := ((name, owner, cpu, memory, with_syncthing),
                 Returned (fst (add_container E name owner cpu memory with_syncthing (shared sys))))]\<rparr>"
proof -
  define c where "c = (name, owner, cpu, memory, with_syncthing)"
  define body :: "(unit, 'a) cmd" where
    "body = bnd json_load (\<lambda>registry. bnd (appended E c registry) json_dump)"
  have add: "add_container E name owner cpu memory with_syncthing = bnd init_registry (\<lambda>_. body)"
    unfolding body_def c_def by (rule add_container_appended)
  show ?thesis
  proof (cases "registry_file (shared sys) = Absent")
    case True
    define sys4 where
      "sys4 = sys\<lparr>shared := (shared sys)\<lparr>registry_file := Holds empty_registry\<rparr>,
                    procs := (procs sys)[i := (c, AtOpen)]\<rparr>"
    have four: "run_schedule E [i, i, i, i] sys = sys4"
      using i at free True by (simp add: step_def Let_def sys4_def c_def)
    have rest: "run_schedule E [i, i, i, i, i, i, i] sys4 =
                  sys4\<lparr>shared := snd (body (shared sys4)),
                       procs := (procs sys4)[i := (c, Returned (fst (body (shared sys4))))]\<rparr>"
      unfolding body_def by (rule solo_from_open) (use i free in \<open>simp_all add: sys4_def\<close>)
    have "replicate 11 i = [i, i, i, i] @ [i, i, i, i, i, i, i]"
      by (simp add: eval_nat_numeral)
    then have "run_schedule E (replicate 11 i) sys = run_schedule E [i, i, i, i, i, i, i] sys4"
      using four by (simp only: run_schedule_append)
    also note rest
    finally show ?thesis
      using True by (simp add: add sys4_def init_registry_def bnd_def c_def)
  next
    case False
    define sys1 where "sys1 = sys\<lparr>procs := (procs sys)[i := (c, AtOpen)]\<rparr>"
    have one: "run_schedule E [i] sys = sys1"
      using i at free False
      by (cases "registry_file (shared sys)") (simp_all add: step_def Let_def sys1_def c_def)
    have rest: "run_schedule E [i, i, i, i, i, i, i] sys1 =
                  sys1\<lparr>shared := snd (body (shared sys1)),
                       procs := (procs sys1)[i := (c, Returned (fst (body (shared sys1))))]\<rparr>"
      unfolding body_def by (rule solo_from_open) (use i free False in \<open>simp_all add: sys1_def\<close>)
    define sys8 where
      "sys8 = sys1\<lparr>shared := snd (body (shared sys1)),
                     procs := (procs sys1)[i := (c, Returned (fst (body (shared sys1))))]\<rparr>"
    have idle: "step E i sys8 = sys8"
      by (rule step_Returned[where c = c and r = "fst (body (shared sys1))"])
         (use i in \<open>simp_all add: sys8_def sys1_def\<close>)
    have "replicate 11 i = [i] @ [i, i, i, i, i, i, i] @ [i, i, i]"
      by (simp add: eval_nat_numeral)
    then have "run_schedule E (replicate 11 i) sys = run_schedule E [i, i, i] sys8"
      using one rest by (simp only: run_schedule_append sys8_def)
    also have "\<dots> = sys8" by (simp add: idle)
    finally show ?thesis
      using False
      by (cases "registry_file (shared sys)")
         (simp_all add: add sys8_def sys1_def init_registry_def bnd_def c_def)
  qed
qed

text \<open>
  Whatever the schedule, the system stays consistent. So a process that reaches the close
  with a document in its buffer finds the file as it left it, and writes the whole document;
  and as long as a document waits in a buffer, every \<^verbatim>\<open>json.load\<close> of another process
  fails.
\<close>

lemma pending_unlock [simp]: "pending (AtUnlock r) = (\<not> isl r)"
  by (cases r) simp_all

lemma pending_close [simp]: "pending (AtClose r) = (\<not> isl r)"
  by (cases r) simp_all

lemma loaded_locked: "loaded st \<Longrightarrow> locked st"
  by (cases st) simp_all

lemma advance_lock:
  assumes "advance E c i st s l = (st', s', l')" and "locked st \<longrightarrow> l = Some i"
  shows "(locked st' \<longrightarrow> l' = Some i)
       \<and> (l' = l \<or> (l = None \<and> l' = Some i) \<or> (l = Some i \<and> l' = None))"
  using assms
  by (cases "(E, c, i, st, s, l)" rule: advance.cases)
     (auto simp: json_load_def split: stored.splits sum.splits prod.splits if_splits)

lemma advance_file:
  assumes "advance E c i st s l = (st', s', l')"
  shows "(registry_file s' = registry_file s \<and> pending st' = pending st
            \<and> (loaded st' \<longrightarrow> loaded st \<or> (\<exists>d. registry_file s = Holds d)))
       \<or> (registry_file s = Absent \<and> registry_file s' = Damaged NotJSON \<and> \<not> loaded st')
       \<or> (pending st \<and> \<not> pending st' \<and> \<not> loaded st' \<and> (\<exists>d. registry_file s' = Holds d))
       \<or> (loaded st \<and> \<not> loaded st' \<and> registry_file s' = Damaged NotJSON)"
proof (cases "(E, c, i, st, s, l)" rule: advance.cases)
  case (8 E' c' i' registry s0 l0)
  obtain res s1 where ap: "appended E c registry s = (res, s1)"
    by (cases "appended E c registry s")
  have "registry_file s1 = registry_file s"
    using appended_file[of E c registry s] ap by simp
  then show ?thesis using assms 8 ap by (cases res) auto
qed (use assms in \<open>auto simp: json_load_def split: stored.splits sum.splits prod.splits if_splits\<close>)

lemma consistent_started: "consistent (started s cs)"
  by (simp add: consistent_def started_def)

lemma consistent_step:
  assumes inv: "consistent sys"
  shows "consistent (step E i sys)"
proof (cases "i < length (procs sys)")
  case False
  then show ?thesis using inv by (simp add: step_def)
next
  case True
  obtain c st where p: "procs sys ! i = (c, st)" by (cases "procs sys ! i")
  obtain st' s' l' where adv: "advance E c i st (shared sys) (lock sys) = (st', s', l')"
    by (cases "advance E c i st (shared sys) (lock sys)")
  let ?P = "procs sys" and ?n = "length (procs sys)"
  have st: "step E i sys = \<lparr>shared = s', lock = l', procs = ?P[i := (c, st')]\<rparr>"
    using True p adv by (simp add: step_def)
  have I1: "\<And>k. k < ?n \<Longrightarrow> locked (snd (?P ! k)) \<Longrightarrow> lock sys = Some k"
    and I2: "\<And>k. k < ?n \<Longrightarrow> pending (snd (?P ! k)) \<Longrightarrow> registry_file (shared sys) = Damaged NotJSON"
    and I3: "\<And>k j. k < ?n \<Longrightarrow> j < ?n \<Longrightarrow> pending (snd (?P ! k)) \<Longrightarrow> pending (snd (?P ! j)) \<Longrightarrow> k = j"
    and I4: "\<And>k. k < ?n \<Longrightarrow> loaded (snd (?P ! k)) \<Longrightarrow> \<exists>d. registry_file (shared sys) = Holds d"
    using inv by (auto simp: consistent_def)
  have own1: "locked st \<longrightarrow> lock sys = Some i" using I1[OF True] p by simp
  note L = advance_lock[OF adv own1]
  note F = advance_file[OF adv]
  have at: "\<And>k. k < ?n \<Longrightarrow> snd (?P[i := (c, st')] ! k) = (if k = i then st' else snd (?P ! k))"
    by (simp add: nth_list_update)
  have sti: "snd (?P ! i) = st" using p by simp
  have J1: "l' = Some k"
    if "k < ?n" "locked (snd (?P[i := (c, st')] ! k))" for k
  proof (cases "k = i")
    case True
    then show ?thesis using that L by (simp add: at)
  next
    case False
    then have "lock sys = Some k" using that I1 by (simp add: at)
    then show ?thesis using L False by auto
  qed
  have J2: "registry_file s' = Damaged NotJSON"
    if "k < ?n" "pending (snd (?P[i := (c, st')] ! k))" for k
  proof (cases "k = i")
    case True
    then have "pending st'" using that by (simp add: at)
    then show ?thesis using F I2[OF \<open>i < ?n\<close>] I4[OF \<open>i < ?n\<close>] sti by auto
  next
    case False
    then have pk: "pending (snd (?P ! k))" using that by (simp add: at)
    then have "registry_file (shared sys) = Damaged NotJSON" using I2 that by blast
    moreover have "\<not> pending st" using I3[OF that(1) \<open>i < ?n\<close> pk] False sti by auto
    ultimately show ?thesis using F by auto
  qed
  have J3: "k = j"
    if "k < ?n" "j < ?n" "pending (snd (?P[i := (c, st')] ! k))" "pending (snd (?P[i := (c, st')] ! j))" for k j
  proof -
    have other: "pending st' \<and> \<not> pending st \<Longrightarrow> m < ?n \<Longrightarrow> m \<noteq> i \<Longrightarrow> \<not> pending (snd (?P ! m))" for m
      using F I2[of m] I4[OF \<open>i < ?n\<close>] sti by auto
    show ?thesis
    proof (cases "k = i"; cases "j = i")
      assume "k \<noteq> i" "j \<noteq> i"
      then show ?thesis using that I3 by (simp add: at)
    next
      assume kj: "k = i" "j \<noteq> i"
      then have "pending st'" "pending (snd (?P ! j))" using that by (simp_all add: at)
      then show ?thesis using other[of j] I3[OF \<open>i < ?n\<close> that(2)] sti kj that(2) by auto
    next
      assume kj: "k \<noteq> i" "j = i"
      then have "pending st'" "pending (snd (?P ! k))" using that by (simp_all add: at)
      then show ?thesis using other[of k] I3[OF \<open>i < ?n\<close> that(1)] sti kj that(1) by auto
    qed simp
  qed
  have J4: "\<exists>d. registry_file s' = Holds d"
    if "k < ?n" "loaded (snd (?P[i := (c, st')] ! k))" for k
  proof (cases "k = i")
    case True
    then have "loaded st'" using that by (simp add: at)
    then show ?thesis using F I4[OF \<open>i < ?n\<close>] sti by auto
  next
    case False
    then have lk: "loaded (snd (?P ! k))" using that by (simp add: at)
    then have hk: "\<exists>d. registry_file (shared sys) = Holds d" using I4 that by blast
    have "lock sys = Some k" using I1[OF that(1)] loaded_locked[OF lk] by simp
    then have "\<not> loaded st" using own1 loaded_locked[of st] False by auto
    then show ?thesis using F hk by auto
  qed
  show ?thesis
    unfolding st consistent_def
    using J1 J2 J3 J4 by (simp del: pending.simps locked.simps loaded.simps)
qed

lemma consistent_run: "consistent sys \<Longrightarrow> consistent (run_schedule E schedule sys)"
  by (induction schedule arbitrary: sys) (simp_all add: consistent_step)

lemma close_finds_file_as_left:
  assumes "sys = run_schedule E schedule (started s cs)"
    and "i < length (procs sys)" and "snd (procs sys ! i) = AtClose (Inr r)"
  shows "registry_file (shared sys) = Damaged NotJSON"
proof -
  have "consistent sys"
    using assms(1) consistent_run[OF consistent_started] by simp
  then show ?thesis using assms(2,3) by (simp add: consistent_def)
qed

text \<open>Run one after the other, the two calls leave both records.\<close>

lemma add_container_serial_keeps_both:
  "results (run_schedule demo_env serial_schedule (started empty_state [alpha_call, beta_call]))
     = [Some (Inr ()), Some (Inr ())]
   \<and> stored_records
       (run_schedule demo_env serial_schedule (started empty_state [alpha_call, beta_call]))
     = Some [new_record ''alpha'' ''ann'' 2 ''4G'' False ''2025-01-01T00:00:00Z'',
             new_record ''beta'' ''bob'' 1 ''512M'' False ''2025-01-01T00:00:00Z'']"
  by (simp add: serial_schedule_def started_def empty_state_def alpha_call_def beta_call_def
        results_def stored_records_def step_def appended_def eval_defs empty_registry_def)

text \<open>
  The racing schedule loses the second record whatever the two calls, the clock and the
  records already in the registry are: process 0 runs up to and including the unlock of its
  \<^verbatim>\<open>finally\<close> clause, so its document waits in the buffer and the file is empty; process 1
  takes the lock, and \<^verbatim>\<open>json.load\<close> fails on the empty file; process 0 closes the file.
\<close>

lemma racing_schedule_loses_second:
  assumes fl: "registry_file s = Holds (JDict reg)"
    and cs: "map_of reg ''containers'' = Some (JList xs)"
    and now: "utc_now E (world s) = (t, w)"
  shows "results (run_schedule E racing_schedule
                    (started s [(name, owner, cpu, memory, with_syncthing), c])) =
           [Some (Inr ()), Some (Inl JSONDecodeError)]
       \<and> stored_records (run_schedule E racing_schedule
                    (started s [(name, owner, cpu, memory, with_syncthing), c])) =
           Some (xs @ [new_record name owner cpu memory with_syncthing t])"
  using assms
  by (simp add: racing_schedule_def started_def results_def stored_records_def step_def
        json_load_def appended_def get_timestamp_def cmd_defs Let_def update_conv')

text \<open>
  C2. Two processes append the records \<^verbatim>\<open>alpha\<close> and \<^verbatim>\<open>beta\<close> to a file that holds the
  empty registry, on the racing schedule. Both calls have returned at its end, the second
  with JSONDecodeError, and the registry holds one record, not two. The docstring of
  \<^verbatim>\<open>add_container\<close> promises exclusive locking across the entire read-modify-write cycle;
  the write that ends the cycle, at the close of the file, comes after the unlock.
\<close>

theorem add_container_race_loses_record:
  "results (run_schedule demo_env racing_schedule (started empty_state [alpha_call, beta_call]))
     = [Some (Inr ()), Some (Inl JSONDecodeError)]
   \<and> stored_records
       (run_schedule demo_env racing_schedule (started empty_state [alpha_call, beta_call]))
     = Some [new_record ''alpha'' ''ann'' 2 ''4G'' False ''2025-01-01T00:00:00Z'']"
  by (simp add: racing_schedule_def started_def empty_state_def alpha_call_def beta_call_def
        results_def stored_records_def step_def appended_def eval_defs empty_registry_def)

end
